(* ===== verification/Bcr_Prelude.thy ===== *)
theory Bcr_Prelude
  imports Complex_Main "HOL-Library.Word"
begin

text \<open>
  The prelude of the development: the machine integer types of the Rust sources, errors as
  values (the \<open>anyhow\<close> chain and panics), big-endian fields of byte buffers, and the generic
  facts on lists and words that the component theories share.

  The collections \<open>result_simps\<close> (combinators on results), \<open>buf_simps\<close> (reads of
  updated buffers) and \<open>ip_simps\<close> (address predicates) carry the component proofs.
\<close>

unbundle bit_operations_syntax

named_theorems result_simps
named_theorems buf_simps
named_theorems ip_simps

section \<open>Definitions\<close>

subsection \<open>Machine integers and buffers\<close>

type_synonym u8 = "8 word"
type_synonym u16 = "16 word"
type_synonym u32 = "32 word"

type_synonym buf = "u8 list"

text \<open>
  \<open>be16 b i\<close> reads the two bytes at offset \<open>i\<close> in network order and \<open>put16\<close>
  writes them; \<open>put32\<close> writes four bytes. Offsets are only used inside the buffer.
\<close>

definition be16 :: "buf \<Rightarrow> nat \<Rightarrow> u16" where
  "be16 b i = push_bit 8 (ucast (b ! i)) OR ucast (b ! Suc i)"

definition hi8 :: "u16 \<Rightarrow> u8" where
  "hi8 v = ucast (drop_bit 8 v)"

definition lo8 :: "u16 \<Rightarrow> u8" where
  "lo8 v = ucast v"

definition put16 :: "nat \<Rightarrow> u16 \<Rightarrow> buf \<Rightarrow> buf" where
  "put16 i v b = b[i := hi8 v, Suc i := lo8 v]"

subsection \<open>Errors as values\<close>

text \<open>
  An \<open>anyhow::Error\<close> is its chain of messages, the outermost context first; its
  \<open>Display\<close> (format \<open>{}\<close>) prints the outermost message only.
\<close>

type_synonym anyhow = "string list"

type_synonym 'a result = "anyhow + 'a"

definition display_error :: "anyhow \<Rightarrow> string" where
  "display_error e = (case e of [] \<Rightarrow> [] | m # _ \<Rightarrow> m)"

definition with_context :: "string \<Rightarrow> 'a result \<Rightarrow> 'a result" where
  "with_context c r = (case r of Inl e \<Rightarrow> Inl (c # e) | Inr v \<Rightarrow> Inr v)"

text \<open>The \<open>?\<close> operator: stop with the error, or continue with the value.\<close>

definition and_then :: "'e + 'a \<Rightarrow> ('a \<Rightarrow> 'e + 'b) \<Rightarrow> 'e + 'b" where
  "and_then r f = (case r of Inl e \<Rightarrow> Inl e | Inr v \<Rightarrow> f v)"

text \<open>
  A computation that can panic: an out-of-range index or slice, or an \<open>unwrap\<close> of \<open>None\<close>. Under
  the release profile (\<open>panic = "abort"\<close>) a panic ends the process.
\<close>

datatype 'a outcome = Panic | Ret 'a

definition seq :: "'a outcome \<Rightarrow> ('a \<Rightarrow> 'b outcome) \<Rightarrow> 'b outcome" where
  "seq r f = (case r of Panic \<Rightarrow> Panic | Ret v \<Rightarrow> f v)"

text \<open>The \<open>?\<close> operator of a function that returns an \<open>Option\<close>.\<close>

definition seq_some :: "'a option outcome \<Rightarrow> ('a \<Rightarrow> 'b option outcome) \<Rightarrow> 'b option outcome" where
  "seq_some r f = seq r (\<lambda>x. case x of None \<Rightarrow> Ret None | Some v \<Rightarrow> f v)"

definition index :: "'a list \<Rightarrow> nat \<Rightarrow> 'a outcome" where
  "index b i = (if i < length b then Ret (b ! i) else Panic)"

definition slice_from :: "nat \<Rightarrow> 'a list \<Rightarrow> 'a list outcome" where
  "slice_from n b = (if n \<le> length b then Ret (drop n b) else Panic)"

definition slice_to :: "nat \<Rightarrow> 'a list \<Rightarrow> 'a list outcome" where
  "slice_to n b = (if n \<le> length b then Ret (take n b) else Panic)"

definition unwrap :: "'a option \<Rightarrow> 'a outcome" where
  "unwrap x = (case x of None \<Rightarrow> Panic | Some v \<Rightarrow> Ret v)"

section \<open>Shared lemmas\<close>

subsection \<open>Results and outcomes\<close>

lemma and_then_simps [simp, result_simps]:
  "and_then (Inl e) f = Inl e" "and_then (Inr v) f = f v"
  by (simp_all add: and_then_def)

lemma and_then_Inr_iff:
  "and_then r f = Inr y \<longleftrightarrow> (\<exists>x. r = Inr x \<and> f x = Inr y)"
  by (cases r) auto

lemma and_then_Inl_iff:
  "and_then r f = Inl e \<longleftrightarrow> r = Inl e \<or> (\<exists>x. r = Inr x \<and> f x = Inl e)"
  by (cases r) auto

lemma with_context_simps [simp, result_simps]:
  "with_context c (Inl e) = Inl (c # e)" "with_context c (Inr v) = Inr v"
  by (simp_all add: with_context_def)

lemma with_context_Inr_iff [simp]: "with_context c r = Inr v \<longleftrightarrow> r = Inr v"
  by (cases r) simp_all

lemma with_context_Inl_iff:
  "with_context c r = Inl e \<longleftrightarrow> (\<exists>e'. r = Inl e' \<and> e = c # e')"
  by (cases r) auto

lemma display_error_Cons [simp, result_simps]: "display_error (m # e) = m"
  by (simp add: display_error_def)

lemma seq_simps [simp, result_simps]: "seq Panic f = Panic" "seq (Ret v) f = f v"
  by (simp_all add: seq_def)

lemma seq_Ret_iff: "seq r f = Ret y \<longleftrightarrow> (\<exists>x. r = Ret x \<and> f x = Ret y)"
  by (cases r) auto

lemma seq_Panic_iff: "seq r f = Panic \<longleftrightarrow> r = Panic \<or> (\<exists>x. r = Ret x \<and> f x = Panic)"
  by (cases r) auto

lemma seq_some_simps [simp, result_simps]:
  "seq_some Panic f = Panic" "seq_some (Ret None) f = Ret None" "seq_some (Ret (Some v)) f = f v"
  by (simp_all add: seq_some_def)

lemma index_in_range [simp]: "i < length b \<Longrightarrow> index b i = Ret (b ! i)"
  by (simp add: index_def)

lemma slice_in_range [simp]:
  "n \<le> length b \<Longrightarrow> slice_from n b = Ret (drop n b)"
  "n \<le> length b \<Longrightarrow> slice_to n b = Ret (take n b)"
  by (simp_all add: slice_from_def slice_to_def)

lemma unwrap_Some [simp]: "unwrap (Some v) = Ret v"
  by (simp add: unwrap_def)

subsection \<open>Words\<close>

lemma unat_u8: "unat (x :: u8) < 256"
  using unsigned_less [of x, where 'a = nat] by simp

lemma unat_u16: "unat (x :: u16) < 65536"
  using unsigned_less [of x, where 'a = nat] by simp

lemma unat_ucast_u8 [simp]: "unat (ucast (x :: u8) :: u16) = unat x"
  using unat_u8 [of x] by (simp add: unsigned_ucast_eq take_bit_eq_mod)

lemma unat_be16: "unat (be16 b i) = unat (b ! i) * 256 + unat (b ! Suc i)"
proof -
  have disj: "push_bit 8 (ucast (b ! i) :: u16) AND ucast (b ! Suc i) = 0"
    by (rule bit_eqI) (auto simp: bit_simps dest: bit_imp_le_length)
  have "unat (push_bit 8 (ucast (b ! i) :: u16)) = unat (b ! i) * 256"
    using unat_u8 [of "b ! i"] by (simp add: push_bit_eq_mult unat_word_ariths)
  moreover have "be16 b i = push_bit 8 (ucast (b ! i)) + ucast (b ! Suc i)"
    unfolding be16_def using disj by (simp add: disjunctive_add_eq_or)
  ultimately show ?thesis
    using unat_u8 [of "b ! i"] unat_u8 [of "b ! Suc i"]
    by (simp add: unat_word_ariths)
qed

lemma hi_lo_join: "push_bit 8 (ucast (hi8 v) :: u16) OR ucast (lo8 v) = v"
  unfolding hi8_def lo8_def
  by (rule bit_eqI) (auto simp: bit_simps)

lemma hi8_be16 [simp]: "hi8 (be16 b i) = b ! i"
  unfolding hi8_def be16_def
  by (rule bit_eqI) (auto simp: bit_simps dest: bit_imp_le_length)

lemma lo8_be16 [simp]: "lo8 (be16 b i) = b ! Suc i"
  unfolding lo8_def be16_def
  by (rule bit_eqI) (auto simp: bit_simps dest: bit_imp_le_length)

lemma unat_hi_lo: "unat (hi8 v) * 256 + unat (lo8 v) = unat v"
  using unat_be16 [of "[hi8 v, lo8 v]" 0] by (simp add: be16_def hi_lo_join)

lemma and_15_bound: "unat (x AND 15 :: u8) \<le> 15"
  using word_and_le1 [of x 15] by (simp add: word_le_nat_alt)

text \<open>Masking the high nibble of a byte is division by 16.\<close>

lemma and_F0: "(a :: u8) AND 0xF0 = push_bit 4 (drop_bit 4 a)"
proof -
  have "(0xF0 :: u8) = NOT (mask 4)" by (simp add: mask_eq_exp_minus_1)
  then show ?thesis by (simp add: bit_eq_iff bit_simps) auto
qed

lemma unat_drop_4: "unat (drop_bit 4 (a :: u8)) = unat a div 16"
  by (simp add: drop_bit_eq_div unat_div)

lemma and_F0_eq_iff: "(a :: u8) AND 0xF0 = v \<longleftrightarrow> unat a div 16 * 16 = unat v"
proof -
  have "unat (push_bit 4 (drop_bit 4 a)) = unat a div 16 * 16"
    using unat_u8 [of a] by (simp add: unat_drop_4 push_bit_eq_mult unat_word_ariths)
  then show ?thesis by (simp add: and_F0 word_unat_eq_iff)
qed

subsection \<open>Reading updated buffers\<close>

lemma length_put16 [simp, buf_simps]: "length (put16 i v b) = length b"
  by (simp add: put16_def)

lemma be16_put16_same [simp, buf_simps]:
  "Suc i < length b \<Longrightarrow> be16 (put16 i v b) i = v"
  by (simp add: be16_def put16_def hi_lo_join)

lemma be16_put16_other [buf_simps]:
  "j \<noteq> i \<Longrightarrow> Suc j \<noteq> i \<Longrightarrow> j \<noteq> Suc i \<Longrightarrow> be16 (put16 i v b) j = be16 b j"
  by (simp add: be16_def put16_def)

lemma nth_put16 [buf_simps]:
  "j \<noteq> i \<Longrightarrow> j \<noteq> Suc i \<Longrightarrow> put16 i v b ! j = b ! j"
  by (simp add: put16_def)

lemma be16_update [buf_simps]:
  "j \<noteq> i \<Longrightarrow> Suc j \<noteq> i \<Longrightarrow> be16 (b[i := v]) j = be16 b j"
  by (simp add: be16_def)

lemma be16_cong: "b ! i = c ! i \<Longrightarrow> b ! Suc i = c ! Suc i \<Longrightarrow> be16 b i = be16 c i"
  by (simp add: be16_def)

lemma be16_drop [buf_simps]: "n + Suc i < length b \<Longrightarrow> be16 (drop n b) i = be16 b (n + i)"
  by (simp add: be16_def)

lemma be16_take [buf_simps]: "Suc i < n \<Longrightarrow> be16 (take n b) i = be16 b i"
  by (simp add: be16_def)

lemma be16_append [buf_simps]: "Suc i < length b \<Longrightarrow> be16 (b @ c) i = be16 b i"
  by (simp add: be16_def nth_append)

end
