(* ===== verification/Bcr_Std.thy ===== *)
theory Bcr_Std
  imports Bcr_Prelude
begin

text \<open>
  What the sources use of Rust's standard library: UTF-8 strings (a \<open>str\<close> is the list of
  its bytes), the integer and IPv4 address parsers of \<open>core\<close>, decimal printing, and
  \<open>std::net::Ipv4Addr\<close>.

  A Rust \<open>str\<close> is a byte sequence in UTF-8, so \<open>string\<close> (a list of 8-bit characters)
  is its exact representation. The separators the parser looks for are ASCII and never occur
  inside a multi-byte character; only white space needs decoding, which \<open>ws_len\<close> does for
  every character of the Unicode property White\_Space.
\<close>

section \<open>Definitions\<close>

subsection \<open>White space, lines and splitting\<close>

definition byte :: "char \<Rightarrow> nat" where
  "byte c = of_char c"

text \<open>The number of bytes of the white-space character a string starts with, 0 if none.\<close>

fun ws_len :: "string \<Rightarrow> nat" where
  "ws_len [] = 0"
| "ws_len (c # cs) =
     (let b = byte c; t = map byte (take 2 cs) in
      if 9 \<le> b \<and> b \<le> 13 \<or> b = 32 then 1
      else if b = 0xC2 \<and> (take 1 t = [0x85] \<or> take 1 t = [0xA0]) then 2
      else if b = 0xE1 \<and> t = [0x9A, 0x80] then 3
      else if b = 0xE2 \<and> length t = 2 \<and> t ! 0 = 0x80 \<and>
              (0x80 \<le> t ! 1 \<and> t ! 1 \<le> 0x8A \<or> t ! 1 = 0xA8 \<or> t ! 1 = 0xA9 \<or> t ! 1 = 0xAF) then 3
      else if b = 0xE2 \<and> t = [0x81, 0x9F] then 3
      else if b = 0xE3 \<and> t = [0x80, 0x80] then 3
      else 0)"

function trim_start :: "string \<Rightarrow> string" where
  "trim_start s = (if ws_len s = 0 then s else trim_start (drop (ws_len s) s))"
  by pat_completeness auto
termination
proof (relation "measure length")
  fix s :: string
  assume "ws_len s \<noteq> 0"
  then show "(drop (ws_len s) s, s) \<in> measure length" by (cases s) auto
qed simp

declare trim_start.simps [simp del]

fun trim_end :: "string \<Rightarrow> string" where
  "trim_end [] = []"
| "trim_end (c # cs) = (if trim_start (c # cs) = [] then [] else c # trim_end cs)"

definition trim :: "string \<Rightarrow> string" where
  "trim s = trim_end (trim_start s)"

definition flush :: "string \<Rightarrow> string list \<Rightarrow> string list" where
  "flush acc ts = (if acc = [] then ts else acc # ts)"

function split_ws :: "string \<Rightarrow> string \<Rightarrow> string list" where
  "split_ws acc [] = flush acc []"
| "split_ws acc (c # cs) =
     (if ws_len (c # cs) = 0 then split_ws (acc @ [c]) cs
      else flush acc (split_ws [] (drop (ws_len (c # cs)) (c # cs))))"
  by pat_completeness auto
termination
  by (relation "measure (\<lambda>(acc, s). length s)") auto

definition split_whitespace :: "string \<Rightarrow> string list" where
  "split_whitespace s = split_ws [] s"

text \<open>
  \<open>str::lines\<close>: split after every newline, drop the newline and one carriage return
  before it; a final line without newline is kept as it is.
\<close>

definition strip_cr :: "string \<Rightarrow> string" where
  "strip_cr s = (if s \<noteq> [] \<and> last s = CHR 0x0D then butlast s else s)"

fun lines_go :: "string \<Rightarrow> string \<Rightarrow> string list" where
  "lines_go acc [] = flush acc []"
| "lines_go acc (c # cs) =
     (if c = CHR 0x0A then strip_cr acc # lines_go [] cs else lines_go (acc @ [c]) cs)"

definition lines :: "string \<Rightarrow> string list" where
  "lines s = lines_go [] s"

text \<open>\<open>str::split\<close> on one character: there is always at least one part.\<close>

fun split_on :: "char \<Rightarrow> string \<Rightarrow> string list" where
  "split_on d [] = [[]]"
| "split_on d (c # cs) =
     (if c = d then [] # split_on d cs
      else (case split_on d cs of [] \<Rightarrow> [[c]] | p # ps \<Rightarrow> (c # p) # ps))"

definition strip_prefix :: "string \<Rightarrow> string \<Rightarrow> string option" where
  "strip_prefix p s = (if take (length p) s = p then Some (drop (length p) s) else None)"

subsection \<open>Decimal numbers\<close>

definition digit_char :: "nat \<Rightarrow> char" where
  "digit_char d = char_of (48 + d)"

fun show_nat :: "nat \<Rightarrow> string" where
  "show_nat n = (if n < 10 then [digit_char n] else show_nat (n div 10) @ [digit_char (n mod 10)])"

declare show_nat.simps [simp del]

definition show_word :: "'w::len word \<Rightarrow> string" where
  "show_word w = show_nat (unat w)"

definition to_digit :: "char \<Rightarrow> nat option" where
  "to_digit c = (if 48 \<le> byte c \<and> byte c \<le> 57 then Some (byte c - 48) else None)"

definition is_digit :: "char \<Rightarrow> bool" where
  "is_digit c \<longleftrightarrow> 48 \<le> byte c \<and> byte c \<le> 57"

text \<open>\<open>core::num::ParseIntError\<close>, represented by what its \<open>Display\<close> prints.\<close>

definition int_empty :: anyhow where
  "int_empty = [''cannot parse integer from empty string'']"

definition int_invalid_digit :: anyhow where
  "int_invalid_digit = [''invalid digit found in string'']"

definition int_pos_overflow :: anyhow where
  "int_pos_overflow = [''number too large to fit in target type'']"

text \<open>The digit loop of \<open>from_str_radix\<close> (radix 10, unsigned, checked arithmetic).\<close>

fun parse_digits :: "nat \<Rightarrow> nat \<Rightarrow> string \<Rightarrow> nat result" where
  "parse_digits mx acc [] = Inr acc"
| "parse_digits mx acc (c # cs) =
     (case to_digit c of
        None \<Rightarrow> Inl int_invalid_digit
      | Some d \<Rightarrow> if acc * 10 + d > mx then Inl int_pos_overflow
                  else parse_digits mx (acc * 10 + d) cs)"

definition parse_uint :: "nat \<Rightarrow> string \<Rightarrow> nat result" where
  "parse_uint mx s =
     (if s = [] then Inl int_empty
      else if s = ''+'' \<or> s = ''-'' then Inl int_invalid_digit
      else if hd s = CHR ''+'' then parse_digits mx 0 (tl s)
      else parse_digits mx 0 s)"

definition parse_u16 :: "string \<Rightarrow> u16 result" where
  "parse_u16 s = and_then (parse_uint 65535 s) (\<lambda>n. Inr (of_nat n))"

definition parse_u32 :: "string \<Rightarrow> u32 result" where
  "parse_u32 s = and_then (parse_uint 4294967295 s) (\<lambda>n. Inr (of_nat n))"

subsection \<open>IPv4 addresses\<close>

datatype ipv4addr = Ipv4Addr u8 u8 u8 u8

fun octets :: "ipv4addr \<Rightarrow> u8 list" where
  "octets (Ipv4Addr a b c d) = [a, b, c, d]"

definition is_multicast :: "ipv4addr \<Rightarrow> bool" where
  "is_multicast ip \<longleftrightarrow> 224 \<le> octets ip ! 0 \<and> octets ip ! 0 \<le> 239"

text \<open>\<open>u32::from_be_bytes(ip.octets())\<close>.\<close>

fun ip_u32 :: "ipv4addr \<Rightarrow> u32" where
  "ip_u32 (Ipv4Addr a b c d) =
     push_bit 24 (ucast a) OR push_bit 16 (ucast b) OR push_bit 8 (ucast c) OR ucast d"

definition limited_broadcast :: ipv4addr where
  "limited_broadcast = Ipv4Addr 255 255 255 255"

fun show_ipv4 :: "ipv4addr \<Rightarrow> string" where
  "show_ipv4 (Ipv4Addr a b c d) =
     show_word a @ ''.'' @ show_word b @ ''.'' @ show_word c @ ''.'' @ show_word d"

text \<open>
  \<open>core::net::parser\<close>: an octet is one to three decimal digits without a leading zero and
  at most 255; an address is four octets separated by dots and nothing else.
\<close>

definition addr_parse_error :: anyhow where
  "addr_parse_error = [''invalid IPv4 address syntax'']"

definition digits_value :: "string \<Rightarrow> nat" where
  "digits_value s = foldl (\<lambda>n c. n * 10 + (byte c - 48)) 0 s"

definition read_octet :: "string \<Rightarrow> (u8 \<times> string) option" where
  "read_octet s =
     (let ds = takeWhile is_digit s in
      if ds = [] \<or> 3 < length ds then None
      else if hd ds = CHR ''0'' \<and> 1 < length ds then None
      else if 255 < digits_value ds then None
      else Some (of_nat (digits_value ds), drop (length ds) s))"

definition read_dot :: "string \<Rightarrow> string option" where
  "read_dot s = (case s of [] \<Rightarrow> None | c # cs \<Rightarrow> if c = CHR ''.'' then Some cs else None)"

definition read_ipv4_addr :: "string \<Rightarrow> (ipv4addr \<times> string) option" where
  "read_ipv4_addr s =
     Option.bind (read_octet s) (\<lambda>(a, s1). Option.bind (read_dot s1) (\<lambda>s2.
     Option.bind (read_octet s2) (\<lambda>(b, s3). Option.bind (read_dot s3) (\<lambda>s4.
     Option.bind (read_octet s4) (\<lambda>(c, s5). Option.bind (read_dot s5) (\<lambda>s6.
     Option.bind (read_octet s6) (\<lambda>(d, s7). Some (Ipv4Addr a b c d, s7))))))))"

definition ipv4_from_str :: "string \<Rightarrow> ipv4addr result" where
  "ipv4_from_str s =
     (if 15 < length s then Inl addr_parse_error
      else case read_ipv4_addr s of
        Some (ip, []) \<Rightarrow> Inr ip
      | _ \<Rightarrow> Inl addr_parse_error)"

section \<open>Lemmas\<close>

subsection \<open>Decimal numbers\<close>

definition graphic :: "char \<Rightarrow> bool" where
  "graphic c \<longleftrightarrow> 33 \<le> byte c \<and> byte c \<le> 126"

lemma byte_digit_char [simp]: "d < 10 \<Longrightarrow> byte (digit_char d) = 48 + d"
  by (simp add: byte_def digit_char_def take_bit_eq_mod)

lemma to_digit_digit_char [simp]: "d < 10 \<Longrightarrow> to_digit (digit_char d) = Some d"
  by (simp add: to_digit_def)

lemma digit_char_byte: "to_digit c = Some d \<Longrightarrow> digit_char d = c \<and> d < 10 \<and> byte c = 48 + d"
  by (auto simp: to_digit_def digit_char_def byte_def split: if_splits)

lemma digit_char_inj [simp]: "d < 10 \<Longrightarrow> e < 10 \<Longrightarrow> digit_char d = digit_char e \<longleftrightarrow> d = e"
  by (metis add_left_cancel byte_digit_char)

lemma digit_char_zero: "CHR ''0'' = digit_char 0"
  by code_simp

lemma to_digit_None_iff: "to_digit c = None \<longleftrightarrow> \<not> is_digit c"
  by (auto simp: to_digit_def is_digit_def)

lemma is_digit_char: "is_digit c \<Longrightarrow> \<exists>d<10. c = digit_char d"
  by (rule exI [of _ "byte c - 48"]) (auto simp: is_digit_def digit_char_def byte_def)

lemma is_digit_digit_char [simp]: "d < 10 \<Longrightarrow> is_digit (digit_char d)"
  by (simp add: is_digit_def)

lemma show_nat_small [simp]: "n < 10 \<Longrightarrow> show_nat n = [digit_char n]"
  by (simp add: show_nat.simps)

lemma show_nat_step: "10 \<le> n \<Longrightarrow> show_nat n = show_nat (n div 10) @ [digit_char (n mod 10)]"
  by (simp add: show_nat.simps [of n])

lemma show_nat_not_Nil [simp]: "show_nat n \<noteq> []"
  by (simp add: show_nat.simps [of n])

lemma show_nat_is_digit: "c \<in> set (show_nat n) \<Longrightarrow> is_digit c"
proof (induction n rule: show_nat.induct)
  case (1 n)
  then show ?case
    by (cases "n < 10") (auto simp: show_nat_step)
qed

lemma show_nat_graphic: "c \<in> set (show_nat n) \<Longrightarrow> graphic c"
  by (auto dest!: show_nat_is_digit simp: graphic_def is_digit_def)

lemma parse_digits_append:
  "parse_digits mx acc (xs @ ys) = and_then (parse_digits mx acc xs) (\<lambda>a. parse_digits mx a ys)"
  by (induction xs arbitrary: acc) (auto split: option.split)

lemma parse_digits_show_nat: "n \<le> mx \<Longrightarrow> parse_digits mx 0 (show_nat n) = Inr n"
proof (induction n rule: show_nat.induct)
  case (1 n)
  show ?case
  proof (cases "n < 10")
    case True
    with "1.prems" show ?thesis by simp
  next
    case False
    with "1" have "parse_digits mx 0 (show_nat (n div 10)) = Inr (n div 10)" by simp
    with False "1.prems" show ?thesis
      by (simp add: show_nat_step parse_digits_append)
  qed
qed

lemma parse_digits_le: "parse_digits mx acc s = Inr n \<Longrightarrow> acc \<le> mx \<Longrightarrow> n \<le> mx"
  by (induction s arbitrary: acc) (auto split: option.splits if_splits)

lemma parse_uint_le: "parse_uint mx s = Inr n \<Longrightarrow> n \<le> mx"
  by (auto simp: parse_uint_def split: if_splits dest: parse_digits_le)

lemma digit_char_neq: "\<not> is_digit c \<Longrightarrow> c \<notin> set (show_nat n)"
  using show_nat_is_digit by blast

lemma not_digit_punctuation [simp]:
  "\<not> is_digit (CHR ''+'')" "\<not> is_digit (CHR ''-'')" "\<not> is_digit (CHR ''.'')"
  "\<not> is_digit (CHR '':'')" "\<not> is_digit (CHR ''/'')"
  by (simp_all add: is_digit_def byte_def)

lemma parse_uint_show_nat: "n \<le> mx \<Longrightarrow> parse_uint mx (show_nat n) = Inr n"
proof -
  assume n: "n \<le> mx"
  have p: "CHR ''+'' \<notin> set (show_nat n)" "CHR ''-'' \<notin> set (show_nat n)"
    by (simp_all add: digit_char_neq)
  then have "show_nat n \<noteq> ''+''" "show_nat n \<noteq> ''-''" by auto
  moreover have "hd (show_nat n) \<noteq> CHR ''+''"
    using p(1) hd_in_set [of "show_nat n"] by fastforce
  ultimately show ?thesis by (simp add: parse_uint_def parse_digits_show_nat n)
qed

lemma parse_u16_show_word [simp]: "parse_u16 (show_word p) = Inr p"
  using unat_u16 [of p] by (simp add: parse_u16_def show_word_def parse_uint_show_nat)

lemma parse_u32_show_nat: "n < 2 ^ 32 \<Longrightarrow> parse_u32 (show_nat n) = Inr (of_nat n)"
  by (simp add: parse_u32_def parse_uint_show_nat)

subsection \<open>IPv4 addresses\<close>

lemma digits_value_Nil [simp]: "digits_value [] = 0"
  by (simp add: digits_value_def)

lemma digits_value_snoc: "digits_value (xs @ [c]) = digits_value xs * 10 + (byte c - 48)"
  by (simp add: digits_value_def)

lemma digits_value_show_nat [simp]: "digits_value (show_nat n) = n"
proof (induction n rule: show_nat.induct)
  case (1 n)
  show ?case
  proof (cases "n < 10")
    case True
    then show ?thesis using digits_value_snoc [of "[]" "digit_char n"] by simp
  next
    case False
    with "1" show ?thesis by (simp add: show_nat_step digits_value_snoc)
  qed
qed

lemma length_show_nat: "0 < k \<Longrightarrow> n < 10 ^ k \<Longrightarrow> length (show_nat n) \<le> k"
proof (induction k arbitrary: n)
  case 0
  then show ?case by simp
next
  case (Suc k)
  show ?case
  proof (cases "n < 10")
    case False
    with Suc.prems have "n div 10 < 10 ^ k" and "0 < k" by (cases k; auto)+
    then have "length (show_nat (n div 10)) \<le> k" by (rule Suc.IH [rotated])
    with False show ?thesis by (simp add: show_nat_step)
  qed simp
qed

lemma hd_show_nat_0: "hd (show_nat n) = CHR ''0'' \<Longrightarrow> n = 0"
proof (induction n rule: show_nat.induct)
  case (1 n)
  show ?case
  proof (cases "n < 10")
    case True
    with "1.prems" show ?thesis by (simp add: digit_char_zero)
  next
    case False
    with "1" show ?thesis by (simp add: show_nat_step)
  qed
qed

text \<open>Digits without a superfluous leading zero are what \<open>show_nat\<close> prints.\<close>

lemma show_nat_digits_value:
  "ds \<noteq> [] \<Longrightarrow> \<forall>c\<in>set ds. is_digit c \<Longrightarrow>
   (hd ds = CHR ''0'' \<longrightarrow> length ds = 1) \<Longrightarrow> show_nat (digits_value ds) = ds"
proof (induction ds rule: rev_induct)
  case Nil
  then show ?case by simp
next
  case (snoc c cs)
  from snoc.prems obtain d where d: "c = digit_char d" "d < 10"
    using is_digit_char by auto
  show ?case
  proof (cases "cs = []")
    case True
    with d show ?thesis using digits_value_snoc [of "[]" c] by simp
  next
    case False
    with snoc.prems have "hd cs \<noteq> CHR ''0''" by (auto simp: hd_append)
    with False snoc have IH: "show_nat (digits_value cs) = cs" by simp
    have "digits_value cs \<noteq> 0"
    proof
      assume "digits_value cs = 0"
      with IH have "cs = [digit_char 0]" by simp
      with \<open>hd cs \<noteq> CHR ''0''\<close> show False by (simp add: digit_char_zero)
    qed
    with IH d show ?thesis by (simp add: digits_value_snoc show_nat_step)
  qed
qed

lemma takeWhile_digits_append:
  assumes "\<forall>c\<in>set ds. is_digit c" and "r = [] \<or> \<not> is_digit (hd r)"
  shows "takeWhile is_digit (ds @ r) = ds"
  using assms by (cases r) (auto simp: takeWhile_append2 takeWhile_tail)

lemma read_octet_show [simp]:
  fixes a :: u8
  assumes "r = [] \<or> \<not> is_digit (hd r)"
  shows "read_octet (show_word a @ r) = Some (a, r)"
proof -
  let ?n = "unat a"
  have tw: "takeWhile is_digit (show_nat ?n @ r) = show_nat ?n"
    using assms show_nat_is_digit by (intro takeWhile_digits_append) auto
  have "length (show_nat ?n) \<le> 3"
    using unat_u8 [of a] by (intro length_show_nat) auto
  moreover have "hd (show_nat ?n) = CHR ''0'' \<longrightarrow> length (show_nat ?n) = 1"
    using hd_show_nat_0 [of ?n] by auto
  ultimately show ?thesis
    using unat_u8 [of a] by (auto simp: read_octet_def Let_def show_word_def tw)
qed

lemma read_octet_Some:
  assumes "read_octet s = Some (a, r)"
  shows "s = show_word a @ r"
proof -
  let ?ds = "takeWhile is_digit s"
  from assms have "?ds \<noteq> []" "hd ?ds = CHR ''0'' \<longrightarrow> \<not> 1 < length ?ds"
    and v: "digits_value ?ds \<le> 255" "a = of_nat (digits_value ?ds)" "r = drop (length ?ds) s"
    by (auto simp: read_octet_def Let_def split: if_splits)
  then have c: "?ds \<noteq> []" "hd ?ds = CHR ''0'' \<longrightarrow> length ?ds = 1"
    by (cases ?ds; auto)+
  have "show_nat (digits_value ?ds) = ?ds"
    using c by (intro show_nat_digits_value) (auto dest: set_takeWhileD)
  moreover have "unat a = digits_value ?ds" using v by (simp add: unsigned_of_nat take_bit_eq_mod)
  moreover have "s = ?ds @ r" using v by (metis dropWhile_eq_drop takeWhile_dropWhile_id)
  ultimately show ?thesis by (simp add: show_word_def)
qed

lemma read_dot_simps [simp]: "read_dot [] = None" "read_dot (CHR ''.'' # s) = Some s"
  by (simp_all add: read_dot_def)

lemma read_dot_Some: "read_dot s = Some r \<longleftrightarrow> s = CHR ''.'' # r"
  by (auto simp: read_dot_def split: list.splits if_splits)

lemma read_ipv4_addr_Some: "read_ipv4_addr s = Some (ip, r) \<Longrightarrow> s = show_ipv4 ip @ r"
  by (auto simp: read_ipv4_addr_def bind_eq_Some_conv read_dot_Some dest!: read_octet_Some)

lemma length_show_u8: "length (show_word a) \<le> 3" for a :: u8
  unfolding show_word_def using unat_u8 [of a] by (intro length_show_nat) auto

lemma read_ipv4_addr_show [simp]: "read_ipv4_addr (show_ipv4 ip) = Some (ip, [])"
  using read_octet_show [of "[]"] by (cases ip) (simp add: read_ipv4_addr_def)

lemma length_show_ipv4: "length (show_ipv4 ip) \<le> 15"
proof (cases ip)
  case (Ipv4Addr a b c d)
  then show ?thesis
    using length_show_u8 [of a] length_show_u8 [of b] length_show_u8 [of c] length_show_u8 [of d]
    by simp
qed

text \<open>
  The address parser accepts exactly the canonical dotted quad of an address: it reads back
  what is printed, and it accepts no other spelling (no octal, no leading zero, no blanks).
\<close>

lemma ipv4_from_str_iff: "ipv4_from_str s = Inr ip \<longleftrightarrow> s = show_ipv4 ip"
proof
  assume "ipv4_from_str s = Inr ip"
  then have "read_ipv4_addr s = Some (ip, [])"
    by (auto simp: ipv4_from_str_def split: if_splits option.splits list.splits)
  then show "s = show_ipv4 ip" by (auto dest: read_ipv4_addr_Some)
next
  assume "s = show_ipv4 ip"
  then show "ipv4_from_str s = Inr ip"
    using length_show_ipv4 [of ip] by (simp add: ipv4_from_str_def)
qed

lemma ipv4_from_str_show [simp]: "ipv4_from_str (show_ipv4 ip) = Inr ip"
  by (simp add: ipv4_from_str_iff)

subsection \<open>Splitting\<close>

definition token :: "string \<Rightarrow> bool" where
  "token t \<longleftrightarrow> t \<noteq> [] \<and> (\<forall>c\<in>set t. graphic c)"

fun unwords :: "string list \<Rightarrow> string" where
  "unwords [] = []"
| "unwords [t] = t"
| "unwords (t # ts) = t @ CHR '' '' # unwords ts"

lemma ws_len_graphic [simp]: "graphic c \<Longrightarrow> ws_len (c # cs) = 0"
  by (auto simp: graphic_def Let_def)

lemma ws_len_space [simp]: "ws_len (CHR '' '' # cs) = 1"
  by (simp add: byte_def Let_def)

lemma ws_len_le: "ws_len s \<le> 3"
  by (cases s) (auto simp: Let_def)

declare ws_len.simps(2) [simp del]

lemma split_ws_graphic: "\<forall>c\<in>set t. graphic c \<Longrightarrow> split_ws acc (t @ s) = split_ws (acc @ t) s"
  by (induction t arbitrary: acc) auto

lemma split_whitespace_word:
  "token t \<Longrightarrow> split_whitespace (t @ CHR '' '' # s) = t # split_whitespace s"
  by (simp add: token_def split_whitespace_def split_ws_graphic flush_def)

lemma split_whitespace_unwords [simp]:
  "\<forall>t\<in>set ts. token t \<Longrightarrow> split_whitespace (unwords ts) = ts"
proof (induction ts rule: unwords.induct)
  case 1
  then show ?case by (simp add: split_whitespace_def flush_def)
next
  case (2 t)
  then show ?case
    using split_ws_graphic [of t "[]" "[]"] by (simp add: split_whitespace_def token_def flush_def)
next
  case (3 t u us)
  then show ?case by (simp add: split_whitespace_word)
qed

text \<open>Every word \<open>split_whitespace\<close> yields is non-empty.\<close>

lemma split_ws_nonempty: "t \<in> set (split_ws acc s) \<Longrightarrow> t \<noteq> []"
  by (induction acc s rule: split_ws.induct) (auto simp: flush_def split: if_splits)

lemma split_on_absent [simp]: "d \<notin> set s \<Longrightarrow> split_on d s = [s]"
  by (induction s) auto

lemma split_on_app [simp]: "d \<notin> set p \<Longrightarrow> split_on d (p @ d # s) = p # split_on d s"
  by (induction p) auto

lemma split_on_not_Nil [simp]: "split_on d s \<noteq> []"
  by (cases s) (auto split: list.split)

lemma length_split_on: "length (split_on d s) = Suc (count_list s d)"
  by (induction s) (auto split: list.split)

lemma trim_start_graphic [simp]: "graphic c \<Longrightarrow> trim_start (c # cs) = c # cs"
  by (simp add: trim_start.simps)

lemma trim_start_Nil [simp]: "trim_start [] = []"
  by (simp add: trim_start.simps)

lemma ws_len_not_graphic:
  assumes "i < ws_len s"
  shows "i < length s \<and> \<not> graphic (s ! i)"
proof -
  have lt: "i < 1 \<Longrightarrow> i = 0" "i < 2 \<Longrightarrow> i = 0 \<or> i = 1" "i < 3 \<Longrightarrow> i = 0 \<or> i = 1 \<or> i = 2"
    by auto
  consider "s = []" | c where "s = [c]" | c d where "s = [c, d]"
    | c d e cs where "s = c # d # e # cs"
    by (metis list.exhaust)
  then show ?thesis
    using assms
    by cases (auto simp: ws_len.simps(2) Let_def graphic_def split: if_splits dest!: lt)
qed

lemma trim_start_last: "s \<noteq> [] \<Longrightarrow> graphic (last s) \<Longrightarrow> trim_start s \<noteq> []"
proof (induction s rule: trim_start.induct)
  case (1 s)
  show ?case
  proof (cases "ws_len s = 0")
    case True
    with "1.prems" show ?thesis by (simp add: trim_start.simps)
  next
    case False
    have "ws_len s < length s"
    proof (rule ccontr)
      assume "\<not> ws_len s < length s"
      with "1.prems"(1) have "length s - 1 < ws_len s" by (cases s) auto
      then have "\<not> graphic (s ! (length s - 1))" by (auto dest: ws_len_not_graphic)
      with "1.prems" show False by (simp add: last_conv_nth)
    qed
    with False "1" show ?thesis by (subst trim_start.simps) (simp add: last_drop)
  qed
qed

lemma trim_end_last: "s \<noteq> [] \<Longrightarrow> graphic (last s) \<Longrightarrow> trim_end s = s"
proof (induction s)
  case (Cons c cs)
  then show ?case using trim_start_last [of "c # cs"] by (cases "cs = []") auto
qed simp

lemma trim_graphic_ends [simp]:
  "s \<noteq> [] \<Longrightarrow> graphic (hd s) \<Longrightarrow> graphic (last s) \<Longrightarrow> trim s = s"
  using trim_end_last [of s] by (cases s) (auto simp: trim_def)

lemma trim_Nil [simp]: "trim [] = []"
  by (simp add: trim_def)

lemma unwords_ends:
  "ts \<noteq> [] \<Longrightarrow> \<forall>t\<in>set ts. token t \<Longrightarrow>
   unwords ts \<noteq> [] \<and> hd (unwords ts) = hd (hd ts) \<and> last (unwords ts) = last (last ts)"
proof (induction ts rule: unwords.induct)
  case (3 t u us)
  then show ?case by (cases t) (auto simp: token_def)
qed (auto simp: token_def)

lemma trim_unwords [simp]: "\<forall>t\<in>set ts. token t \<Longrightarrow> trim (unwords ts) = unwords ts"
proof (cases "ts = []")
  case False
  assume tok: "\<forall>t\<in>set ts. token t"
  then have "token (hd ts)" "token (last ts)" using False by auto
  then have "graphic (hd (hd ts))" "graphic (last (last ts))"
    by (auto simp: token_def)
  with unwords_ends [OF False tok] show ?thesis by simp
qed simp

lemma strip_prefix_app [simp]: "strip_prefix p (p @ s) = Some s"
  by (simp add: strip_prefix_def)

lemma strip_prefix_Some: "strip_prefix p s = Some r \<longleftrightarrow> s = p @ r"
  by (auto simp: strip_prefix_def) (metis append_take_drop_id)

end
