(* ===== verification/Bcr_Config.thy ===== *)
theory Bcr_Config
  imports Bcr_Std
begin

text \<open>
  \<open>src/src/config.rs\<close>: rules and their matchers, the first-match scan, and the strict
  line-based parser with its error messages. The file system is a parameter of \<open>from_file\<close>.
\<close>

section \<open>Definitions\<close>

subsection \<open>Data\<close>

datatype Action = Allow | Deny

datatype Protocol = Udp | ProtoAny

datatype IpMatcher = IpAny | IpExact ipv4addr | Cidr (cidr_addr: u32) (cidr_mask: u32)

datatype PortMatcher = PortAny | PortExact u16 | PortRange u16 u16

datatype BroadcastType = BcastAny | Limited | Directed

record NatOptions =
  source_ip :: "ipv4addr option"
  dest_ip :: "ipv4addr option"
  source_port :: "u16 option"
  dest_port :: "u16 option"

definition nat_default :: NatOptions where
  "nat_default = \<lparr>source_ip = None, dest_ip = None, source_port = None, dest_port = None\<rparr>"

record PacketInfo =
  pkt_protocol :: Protocol
  pkt_src_ip :: ipv4addr
  pkt_dst_ip :: ipv4addr
  pkt_src_port :: u16
  pkt_dst_port :: u16

record Rule =
  rule_action :: Action
  rule_protocol :: Protocol
  rule_src_ip :: IpMatcher
  rule_src_port :: PortMatcher
  rule_dst_ip :: IpMatcher
  rule_dst_port :: PortMatcher
  rule_broadcast_type :: BroadcastType
  rule_nat :: NatOptions

record Config =
  rules :: "Rule list"

subsection \<open>Matching\<close>

fun IpMatcher_matches :: "IpMatcher \<Rightarrow> ipv4addr \<Rightarrow> bool" where
  "IpMatcher_matches IpAny ip \<longleftrightarrow> True"
| "IpMatcher_matches (IpExact addr) ip \<longleftrightarrow> addr = ip"
| "IpMatcher_matches (Cidr addr m) ip \<longleftrightarrow> ip_u32 ip AND m = addr"

fun PortMatcher_matches :: "PortMatcher \<Rightarrow> u16 \<Rightarrow> bool" where
  "PortMatcher_matches PortAny port \<longleftrightarrow> True"
| "PortMatcher_matches (PortExact p) port \<longleftrightarrow> p = port"
| "PortMatcher_matches (PortRange s e) port \<longleftrightarrow> s \<le> port \<and> port \<le> e"

definition broadcast_type_matches :: "BroadcastType \<Rightarrow> ipv4addr \<Rightarrow> bool" where
  "broadcast_type_matches t dst =
     (case t of
        BcastAny \<Rightarrow> True
      | Limited \<Rightarrow> dst = Ipv4Addr 255 255 255 255
      | Directed \<Rightarrow> octets dst ! 3 = 255 \<and> dst \<noteq> Ipv4Addr 255 255 255 255)"

definition Rule_matches :: "Rule \<Rightarrow> PacketInfo \<Rightarrow> bool" where
  "Rule_matches r pkt =
     (if rule_protocol r \<noteq> ProtoAny \<and> rule_protocol r \<noteq> pkt_protocol pkt then False
      else if \<not> PortMatcher_matches (rule_src_port r) (pkt_src_port pkt) then False
      else if \<not> PortMatcher_matches (rule_dst_port r) (pkt_dst_port pkt) then False
      else if \<not> IpMatcher_matches (rule_src_ip r) (pkt_src_ip pkt) then False
      else if \<not> IpMatcher_matches (rule_dst_ip r) (pkt_dst_ip pkt) then False
      else broadcast_type_matches (rule_broadcast_type r) (pkt_dst_ip pkt))"

definition find_match :: "Config \<Rightarrow> PacketInfo \<Rightarrow> Rule option" where
  "find_match cfg pkt = find (\<lambda>rule. Rule_matches rule pkt) (rules cfg)"

definition allow_all_rule :: Rule where
  "allow_all_rule = \<lparr>rule_action = Allow, rule_protocol = ProtoAny,
     rule_src_ip = IpAny, rule_src_port = PortAny, rule_dst_ip = IpAny, rule_dst_port = PortAny,
     rule_broadcast_type = BcastAny, rule_nat = nat_default\<rparr>"

definition allow_all :: Config where
  "allow_all = \<lparr>rules = [allow_all_rule]\<rparr>"

subsection \<open>Parsing\<close>

definition prefix_mask :: "u32 \<Rightarrow> u32" where
  "prefix_mask prefix_len =
     (if prefix_len = 0 then 0 else push_bit (32 - unat prefix_len) (NOT 0))"

definition parse_ip_matcher :: "string \<Rightarrow> IpMatcher result" where
  "parse_ip_matcher s =
     (if s = ''any'' then Inr IpAny
      else if CHR ''/'' \<in> set s then
        (case split_on (CHR ''/'') s of
           [addr_s, len_s] \<Rightarrow>
             and_then (with_context (''Invalid CIDR address: '' @ addr_s) (ipv4_from_str addr_s)) (\<lambda>addr.
             and_then (with_context (''Invalid CIDR prefix length: '' @ len_s) (parse_u32 len_s)) (\<lambda>prefix_len.
             if 32 < prefix_len then Inl [''Invalid CIDR prefix length: '' @ show_word prefix_len]
             else let m = prefix_mask prefix_len in Inr (Cidr (ip_u32 addr AND m) m)))
         | _ \<Rightarrow> Inl [''Invalid CIDR notation: '' @ s])
      else and_then (ipv4_from_str s) (\<lambda>addr. Inr (IpExact addr)))"

definition parse_port_matcher :: "string \<Rightarrow> PortMatcher result" where
  "parse_port_matcher s =
     (if s = ''any'' then Inr PortAny
      else if CHR ''-'' \<in> set s then
        (case split_on (CHR ''-'') s of
           [start_s, end_s] \<Rightarrow>
             and_then (with_context (''Invalid port range start: '' @ start_s) (parse_u16 start_s)) (\<lambda>start.
             and_then (with_context (''Invalid port range end: '' @ end_s) (parse_u16 end_s)) (\<lambda>end_p.
             if end_p < start
             then Inl [''Invalid port range: start '' @ show_word start @ '' is greater than end '' @ show_word end_p]
             else Inr (PortRange start end_p)))
         | _ \<Rightarrow> Inl [''Invalid port range: '' @ s])
      else and_then (with_context (''Invalid port: '' @ s) (parse_u16 s)) (\<lambda>port. Inr (PortExact port)))"

definition parse_addr_port :: "string \<Rightarrow> (IpMatcher \<times> PortMatcher) result" where
  "parse_addr_port s =
     (case split_on (CHR '':'') s of
        [ip_s, port_s] \<Rightarrow>
          and_then (parse_ip_matcher ip_s) (\<lambda>ip.
          and_then (parse_port_matcher port_s) (\<lambda>port. Inr (ip, port)))
      | _ \<Rightarrow> Inl [''Invalid address:port format: '' @ s])"

definition parse_dest_addr_port :: "string \<Rightarrow> (IpMatcher \<times> PortMatcher \<times> BroadcastType) result" where
  "parse_dest_addr_port s =
     (case split_on (CHR '':'') s of
        [ip_str, port_str] \<Rightarrow>
          and_then (parse_port_matcher port_str) (\<lambda>port.
          if ip_str = ''255.255.255.255''
          then Inr (IpExact (Ipv4Addr 255 255 255 255), port, Limited)
          else if ip_str = ''directed'' then Inr (IpAny, port, Directed)
          else if ip_str = ''any'' then Inr (IpAny, port, BcastAny)
          else and_then (parse_ip_matcher ip_str) (\<lambda>ip. Inr (ip, port, BcastAny)))
      | _ \<Rightarrow> Inl [''Invalid address:port format: '' @ s])"

text \<open>One NAT option, in the order the code tries the prefixes; later options overwrite.\<close>

definition parse_nat_opt :: "NatOptions \<Rightarrow> string \<Rightarrow> NatOptions result" where
  "parse_nat_opt no opt =
     (case strip_prefix ''snat='' opt of
        Some val \<Rightarrow> and_then (with_context (''Invalid snat address: '' @ val) (ipv4_from_str val))
                      (\<lambda>ip. Inr (no\<lparr>source_ip := Some ip\<rparr>))
      | None \<Rightarrow> (case strip_prefix ''dnat='' opt of
        Some val \<Rightarrow> and_then (with_context (''Invalid dnat address: '' @ val) (ipv4_from_str val))
                      (\<lambda>ip. Inr (no\<lparr>dest_ip := Some ip\<rparr>))
      | None \<Rightarrow> (case strip_prefix ''sport='' opt of
        Some val \<Rightarrow> and_then (with_context (''Invalid sport: '' @ val) (parse_u16 val))
                      (\<lambda>p. Inr (no\<lparr>source_port := Some p\<rparr>))
      | None \<Rightarrow> (case strip_prefix ''dport='' opt of
        Some val \<Rightarrow> and_then (with_context (''Invalid dport: '' @ val) (parse_u16 val))
                      (\<lambda>p. Inr (no\<lparr>dest_port := Some p\<rparr>))
      | None \<Rightarrow> Inl [''Unknown option '' @ [CHR 0x27] @ opt @ [CHR 0x27] @
                     '' (expected snat=, dnat=, sport=, or dport=)'']))))"

fun parse_nat_opts :: "NatOptions \<Rightarrow> string list \<Rightarrow> NatOptions result" where
  "parse_nat_opts no [] = Inr no"
| "parse_nat_opts no (opt # opts) =
     and_then (parse_nat_opt no opt) (\<lambda>no'. parse_nat_opts no' opts)"

definition parse_action :: "string \<Rightarrow> Action result" where
  "parse_action s =
     (if s = ''allow'' then Inr Allow else if s = ''deny'' then Inr Deny
      else Inl [''Invalid action: '' @ s])"

definition parse_protocol :: "string \<Rightarrow> Protocol result" where
  "parse_protocol s =
     (if s = ''udp'' then Inr Udp else if s = ''any'' then Inr ProtoAny
      else if s = ''tcp'' then Inl [''TCP is not supported: TCP has no broadcast/multicast semantics and is not relayed'']
      else Inl [''Invalid protocol: '' @ s])"

definition nat_is_some :: "NatOptions \<Rightarrow> bool" where
  "nat_is_some no \<longleftrightarrow> source_ip no \<noteq> None \<or> dest_ip no \<noteq> None \<or>
     source_port no \<noteq> None \<or> dest_port no \<noteq> None"

definition parse_rule :: "string \<Rightarrow> Rule result" where
  "parse_rule line =
     (case split_whitespace line of
        action_s # proto_s # src_s # dst_s # opts \<Rightarrow>
          and_then (parse_action action_s) (\<lambda>action.
          and_then (parse_protocol proto_s) (\<lambda>protocol.
          and_then (parse_addr_port src_s) (\<lambda>(src_ip, src_port).
          and_then (parse_dest_addr_port dst_s) (\<lambda>(dst_ip, dst_port, broadcast_type).
          and_then (parse_nat_opts nat_default opts) (\<lambda>no.
          if action = Deny \<and> nat_is_some no
          then Inl [''NAT options are not allowed on a deny rule'']
          else Inr \<lparr>rule_action = action, rule_protocol = protocol,
                    rule_src_ip = src_ip, rule_src_port = src_port,
                    rule_dst_ip = dst_ip, rule_dst_port = dst_port,
                    rule_broadcast_type = broadcast_type, rule_nat = no\<rparr>)))))
      | _ \<Rightarrow> Inl [''Invalid rule format, expected: ACTION PROTO SRC DST [NAT...]''])"

definition skip_line :: "string \<Rightarrow> bool" where
  "skip_line line \<longleftrightarrow> line = [] \<or> hd line = CHR ''#''"

fun parse_lines :: "nat \<Rightarrow> Rule list \<Rightarrow> string list \<Rightarrow> Config result" where
  "parse_lines line_num acc [] = Inr \<lparr>rules = acc\<rparr>"
| "parse_lines line_num acc (l # ls) =
     (let line = trim l in
      if skip_line line then parse_lines (Suc line_num) acc ls
      else case parse_rule line of
        Inr rule \<Rightarrow> parse_lines (Suc line_num) (acc @ [rule]) ls
      | Inl e \<Rightarrow> Inl [''Config parse error at line '' @ show_nat (line_num + 1) @ '': '' @ display_error e])"

definition parse :: "string \<Rightarrow> Config result" where
  "parse content = parse_lines 0 [] (lines content)"

definition from_file :: "(string \<Rightarrow> string result) \<Rightarrow> string \<Rightarrow> Config result" where
  "from_file read_to_string path =
     and_then (with_context (''Failed to read config file: '' @ path) (read_to_string path)) parse"

section \<open>Matching\<close>

lemma find_match_Some_iff:
  "find_match cfg pkt = Some r \<longleftrightarrow>
   (\<exists>pre post. rules cfg = pre @ r # post \<and> Rule_matches r pkt \<and>
      (\<forall>p\<in>set pre. \<not> Rule_matches p pkt))"
proof
  assume "find_match cfg pkt = Some r"
  then obtain i where i: "i < length (rules cfg)" "Rule_matches (rules cfg ! i) pkt"
      "r = rules cfg ! i" "\<forall>j<i. \<not> Rule_matches (rules cfg ! j) pkt"
    by (auto simp: find_match_def find_Some_iff)
  then have "rules cfg = take i (rules cfg) @ r # drop (Suc i) (rules cfg)"
    by (simp add: id_take_nth_drop)
  moreover have "\<forall>p\<in>set (take i (rules cfg)). \<not> Rule_matches p pkt"
    using i by (auto simp: in_set_conv_nth)
  ultimately show "\<exists>pre post. rules cfg = pre @ r # post \<and> Rule_matches r pkt \<and>
      (\<forall>p\<in>set pre. \<not> Rule_matches p pkt)"
    using i by blast
next
  assume "\<exists>pre post. rules cfg = pre @ r # post \<and> Rule_matches r pkt \<and>
      (\<forall>p\<in>set pre. \<not> Rule_matches p pkt)"
  then obtain pre post where "rules cfg = pre @ r # post" "Rule_matches r pkt"
      "\<forall>p\<in>set pre. \<not> Rule_matches p pkt" by blast
  moreover have "\<forall>p\<in>set pre. \<not> Rule_matches p pkt \<Longrightarrow>
      find (\<lambda>rule. Rule_matches rule pkt) (pre @ xs) = find (\<lambda>rule. Rule_matches rule pkt) xs" for xs
    by (induction pre) auto
  ultimately show "find_match cfg pkt = Some r" by (simp add: find_match_def)
qed

lemma find_match_None_iff:
  "find_match cfg pkt = None \<longleftrightarrow> (\<forall>r\<in>set (rules cfg). \<not> Rule_matches r pkt)"
  by (auto simp: find_match_def find_None_iff)

lemma find_match_matches: "find_match cfg pkt = Some r \<Longrightarrow> Rule_matches r pkt \<and> r \<in> set (rules cfg)"
  by (auto simp: find_match_Some_iff)

lemma find_match_append:
  "find_match \<lparr>rules = xs @ ys\<rparr> pkt =
   (case find_match \<lparr>rules = xs\<rparr> pkt of Some r \<Rightarrow> Some r | None \<Rightarrow> find_match \<lparr>rules = ys\<rparr> pkt)"
  by (induction xs) (auto simp: find_match_def)

text \<open>The nested early returns of \<open>Rule::matches\<close> are the conjunction of its checks.\<close>

lemma Rule_matches_iff:
  "Rule_matches r pkt \<longleftrightarrow>
   (rule_protocol r = ProtoAny \<or> rule_protocol r = pkt_protocol pkt) \<and>
   PortMatcher_matches (rule_src_port r) (pkt_src_port pkt) \<and>
   PortMatcher_matches (rule_dst_port r) (pkt_dst_port pkt) \<and>
   IpMatcher_matches (rule_src_ip r) (pkt_src_ip pkt) \<and>
   IpMatcher_matches (rule_dst_ip r) (pkt_dst_ip pkt) \<and>
   broadcast_type_matches (rule_broadcast_type r) (pkt_dst_ip pkt)"
  by (auto simp: Rule_matches_def)

lemma allow_all_matches [simp]: "Rule_matches allow_all_rule pkt"
  by (simp add: Rule_matches_def allow_all_rule_def broadcast_type_matches_def)

section \<open>CIDR prefixes\<close>

lemma bit_prefix_mask:
  "n \<le> 32 \<Longrightarrow> bit (prefix_mask n) i \<longleftrightarrow> 32 - unat n \<le> i \<and> i < 32"
proof -
  assume n: "n \<le> 32"
  have "unat n \<le> 32" using n by (simp add: word_le_nat_alt)
  show ?thesis
  proof (cases "n = 0")
    case False
    then show ?thesis by (auto simp: prefix_mask_def bit_simps)
  qed (simp add: prefix_mask_def)
qed

lemma masked_eq_iff_drop_bit:
  assumes "n \<le> 32"
  shows "x AND prefix_mask n = y AND prefix_mask n \<longleftrightarrow>
         drop_bit (32 - unat n) x = drop_bit (32 - unat n) y"
proof -
  have "x AND prefix_mask n = y AND prefix_mask n \<longleftrightarrow>
        (\<forall>i<32. 32 - unat n \<le> i \<longrightarrow> bit x i = bit y i)"
    by (auto simp: bit_eq_iff bit_and_iff bit_prefix_mask [OF assms])
  also have "\<dots> \<longleftrightarrow> drop_bit (32 - unat n) x = drop_bit (32 - unat n) y"
  proof
    assume h: "\<forall>i<32. 32 - unat n \<le> i \<longrightarrow> bit x i = bit y i"
    show "drop_bit (32 - unat n) x = drop_bit (32 - unat n) y"
    proof (rule bit_eqI)
      fix k
      show "bit (drop_bit (32 - unat n) x) k = bit (drop_bit (32 - unat n) y) k"
      proof (cases "32 - unat n + k < 32")
        case True
        with h show ?thesis by (simp add: bit_drop_bit_eq)
      next
        case False
        then show ?thesis by (auto simp: bit_drop_bit_eq dest: bit_imp_le_length)
      qed
    qed
  next
    assume h: "drop_bit (32 - unat n) x = drop_bit (32 - unat n) y"
    show "\<forall>i<32. 32 - unat n \<le> i \<longrightarrow> bit x i = bit y i"
    proof (intro allI impI)
      fix i assume "32 - unat n \<le> i"
      then have "bit x i = bit (drop_bit (32 - unat n) x) (i - (32 - unat n))"
        and "bit y i = bit (drop_bit (32 - unat n) y) (i - (32 - unat n))"
        by (simp_all add: bit_drop_bit_eq)
      with h show "bit x i = bit y i" by simp
    qed
  qed
  finally show ?thesis .
qed

lemma ip_u32_inj: "ip_u32 x = ip_u32 y \<longleftrightarrow> x = y"
proof
  assume eq: "ip_u32 x = ip_u32 y"
  obtain a b c d where x: "x = Ipv4Addr a b c d" by (cases x)
  obtain a' b' c' d' where y: "y = Ipv4Addr a' b' c' d'" by (cases y)
  have bits: "bit (ip_u32 x) i = bit (ip_u32 y) i" for i using eq by simp
  have "bit a i = bit a' i" if "i < 8" for i
    using bits [of "i + 24"] that
    by (simp add: x y bit_simps) (auto dest: bit_imp_le_length)
  moreover have "bit b i = bit b' i" if "i < 8" for i
    using bits [of "i + 16"] that
    by (simp add: x y bit_simps) (auto dest: bit_imp_le_length)
  moreover have "bit c i = bit c' i" if "i < 8" for i
    using bits [of "i + 8"] that
    by (simp add: x y bit_simps) (auto dest: bit_imp_le_length)
  moreover have "bit d i = bit d' i" if "i < 8" for i
    using bits [of i] that
    by (simp add: x y bit_simps)
  ultimately show "x = y" by (auto simp: x y bit_eq_iff)
qed simp

section \<open>The parser's line loop\<close>

text \<open>The lines the parser looks at: trimmed, numbered from 1, without blanks and comments.\<close>

definition rule_lines :: "string \<Rightarrow> (nat \<times> string) list" where
  "rule_lines content =
     filter (\<lambda>(n, l). \<not> skip_line l) (enumerate 1 (map trim (lines content)))"

definition line_error :: "nat \<Rightarrow> anyhow \<Rightarrow> anyhow" where
  "line_error n e = [''Config parse error at line '' @ show_nat n @ '': '' @ display_error e]"

lemma parse_lines_ok:
  assumes "list_all2 (\<lambda>(n, l) r. parse_rule l = Inr r)
             (filter (\<lambda>(n, l). \<not> skip_line l) (enumerate (Suc k) (map trim ls))) rs"
  shows "parse_lines k acc ls = Inr \<lparr>rules = acc @ rs\<rparr>"
  using assms
proof (induction ls arbitrary: k acc rs)
  case (Cons l ls)
  then show ?case
    by (cases "skip_line (trim l)") (auto simp: list_all2_Cons1 Let_def)
qed simp

lemma parse_lines_error:
  assumes "filter (\<lambda>(n, l). \<not> skip_line l) (enumerate (Suc k) (map trim ls)) = pre @ (n, l) # post"
    and "\<forall>(m, p)\<in>set pre. \<exists>r. parse_rule p = Inr r" and "parse_rule l = Inl e"
  shows "parse_lines k acc ls = Inl (line_error n e)"
  using assms
proof (induction ls arbitrary: k acc pre)
  case (Cons x xs)
  show ?case
  proof (cases "skip_line (trim x)")
    case True
    with Cons show ?thesis by (simp add: Let_def)
  next
    case False
    show ?thesis
    proof (cases pre)
      case Nil
      with False Cons.prems show ?thesis by (auto simp: Let_def line_error_def)
    next
      case (Cons q pre')
      with False Cons.prems obtain r where
        "parse_rule (trim x) = Inr r" "q = (Suc k, trim x)" by (auto simp: Let_def)
      with False Cons Cons.IH [of "Suc k" pre'] Cons.prems show ?thesis by (simp add: Let_def)
    qed
  qed
qed simp

text \<open>Either every rule line parses, or there is a first one that does not.\<close>

lemma lines_dichotomy:
  "(\<exists>rs. list_all2 (\<lambda>(n, l) r. parse_rule l = Inr r) ls rs) \<or>
   (\<exists>pre n l post e. ls = pre @ (n, l) # post \<and> (\<forall>(m, p)\<in>set pre. \<exists>r. parse_rule p = Inr r) \<and>
      parse_rule l = Inl e)"
proof (induction ls)
  case (Cons x ls)
  obtain n l where x: "x = (n, l)" by (cases x)
  show ?case
  proof (cases "parse_rule l")
    case (Inl e)
    with x show ?thesis by (intro disjI2 exI [of _ "[]"]) auto
  next
    case (Inr r)
    from Cons.IH show ?thesis
    proof
      assume "\<exists>rs. list_all2 (\<lambda>(n, l) r. parse_rule l = Inr r) ls rs"
      with Inr x show ?thesis by (fastforce simp: list_all2_Cons1)
    next
      assume "\<exists>pre n l post e. ls = pre @ (n, l) # post \<and>
        (\<forall>(m, p)\<in>set pre. \<exists>r. parse_rule p = Inr r) \<and> parse_rule l = Inl e"
      then obtain pre m k post e where "ls = pre @ (m, k) # post"
        "\<forall>(m, p)\<in>set pre. \<exists>r. parse_rule p = Inr r" "parse_rule k = Inl e" by blast
      with Inr x show ?thesis by (intro disjI2 exI [of _ "x # pre"]) auto
    qed
  qed
qed simp

lemma parse_all: "list_all2 (\<lambda>(n, l) r. parse_rule l = Inr r) (rule_lines content) rs \<Longrightarrow>
    parse content = Inr \<lparr>rules = rs\<rparr>"
  using parse_lines_ok [of 0 "lines content" rs "[]"] by (simp add: parse_def rule_lines_def)

lemma parse_first_error: "rule_lines content = pre @ (n, l) # post \<Longrightarrow>
    \<forall>(m, p)\<in>set pre. \<exists>r. parse_rule p = Inr r \<Longrightarrow> parse_rule l = Inl e \<Longrightarrow>
    parse content = Inl (line_error n e)"
  using parse_lines_error [of 0 "lines content" pre n l post e "[]"]
  by (simp add: parse_def rule_lines_def)

lemma parse_ok_iff:
  "parse content = Inr cfg \<longleftrightarrow>
   list_all2 (\<lambda>(n, l) r. parse_rule l = Inr r) (rule_lines content) (rules cfg)"
proof
  assume ok: "parse content = Inr cfg"
  show "list_all2 (\<lambda>(n, l) r. parse_rule l = Inr r) (rule_lines content) (rules cfg)"
    using lines_dichotomy [of "rule_lines content"]
  proof
    assume "\<exists>rs. list_all2 (\<lambda>(n, l) r. parse_rule l = Inr r) (rule_lines content) rs"
    then obtain rs where rs: "list_all2 (\<lambda>(n, l) r. parse_rule l = Inr r) (rule_lines content) rs" ..
    with parse_all [OF rs] ok have "rules cfg = rs" by simp
    with rs show ?thesis by simp
  next
    assume "\<exists>pre n l post e. rule_lines content = pre @ (n, l) # post \<and>
      (\<forall>(m, p)\<in>set pre. \<exists>r. parse_rule p = Inr r) \<and> parse_rule l = Inl e"
    then have "\<exists>err. parse content = Inl err" using parse_first_error by blast
    with ok show ?thesis by simp
  qed
qed (simp add: parse_all)

lemma parse_error_iff:
  "parse content = Inl err \<longleftrightarrow>
   (\<exists>pre n l post e. rule_lines content = pre @ (n, l) # post \<and>
      (\<forall>(m, p)\<in>set pre. \<exists>r. parse_rule p = Inr r) \<and> parse_rule l = Inl e \<and> err = line_error n e)"
proof
  assume err: "parse content = Inl err"
  from lines_dichotomy [of "rule_lines content"]
  show "\<exists>pre n l post e. rule_lines content = pre @ (n, l) # post \<and>
      (\<forall>(m, p)\<in>set pre. \<exists>r. parse_rule p = Inr r) \<and> parse_rule l = Inl e \<and> err = line_error n e"
  proof
    assume "\<exists>rs. list_all2 (\<lambda>(n, l) r. parse_rule l = Inr r) (rule_lines content) rs"
    with err show ?thesis by (auto dest: parse_all)
  next
    assume "\<exists>pre n l post e. rule_lines content = pre @ (n, l) # post \<and>
      (\<forall>(m, p)\<in>set pre. \<exists>r. parse_rule p = Inr r) \<and> parse_rule l = Inl e"
    then obtain pre n l post e where *: "rule_lines content = pre @ (n, l) # post"
      "\<forall>(m, p)\<in>set pre. \<exists>r. parse_rule p = Inr r" "parse_rule l = Inl e" by blast
    from parse_first_error [OF this] err have "err = line_error n e" by simp
    with * show ?thesis by blast
  qed
qed (auto dest: parse_first_error)

section \<open>Addresses in order\<close>

text \<open>The order that Rust derives for \<open>Ipv4Addr\<close> is the order of the numbers.\<close>

instantiation ipv4addr :: linorder
begin

definition less_eq_ipv4addr :: "ipv4addr \<Rightarrow> ipv4addr \<Rightarrow> bool" where
  "less_eq_ipv4addr x y \<longleftrightarrow> ip_u32 x \<le> ip_u32 y"

definition less_ipv4addr :: "ipv4addr \<Rightarrow> ipv4addr \<Rightarrow> bool" where
  "less_ipv4addr x y \<longleftrightarrow> ip_u32 x < ip_u32 y"

instance
  by intro_classes (auto simp: less_eq_ipv4addr_def less_ipv4addr_def simp flip: ip_u32_inj)

end

text \<open>A prefix is the interval from its network address to its last address.\<close>

lemma div_eq_iff_interval:
  fixes a q s :: nat
  assumes "0 < s"
  shows "a div s = q \<longleftrightarrow> q * s \<le> a \<and> a < q * s + s"
proof
  assume q: "a div s = q"
  have "a = q * s + a mod s" unfolding q [symmetric] by simp
  moreover have "a mod s < s" using assms by simp
  ultimately show "q * s \<le> a \<and> a < q * s + s" by linarith
next
  assume "q * s \<le> a \<and> a < q * s + s"
  then show "a div s = q" by (intro div_nat_eqI) (auto simp: mult.commute)
qed

lemma drop_bit_eq_iff_interval:
  fixes x y :: u32
  assumes "k \<le> 32"
  shows "drop_bit k x = drop_bit k y \<longleftrightarrow>
    unat y div 2 ^ k * 2 ^ k \<le> unat x \<and> unat x < unat y div 2 ^ k * 2 ^ k + 2 ^ k"
proof -
  have "unat (drop_bit k z) = unat z div 2 ^ k" for z :: u32
    unfolding unat_drop_bit_eq by (rule drop_bit_eq_div)
  then have "drop_bit k x = drop_bit k y \<longleftrightarrow> unat x div 2 ^ k = unat y div 2 ^ k"
    by (metis word_unat_eq_iff)
  also have "\<dots> \<longleftrightarrow> unat y div 2 ^ k * 2 ^ k \<le> unat x \<and> unat x < unat y div 2 ^ k * 2 ^ k + 2 ^ k"
    by (rule div_eq_iff_interval) simp
  finally show ?thesis .
qed

text \<open>The first address of the prefix of length \<open>n\<close> that holds \<open>ip\<close>, as a number.\<close>

definition prefix_base :: "ipv4addr \<Rightarrow> nat \<Rightarrow> nat" where
  "prefix_base ip n = unat (ip_u32 ip) div 2 ^ (32 - n) * 2 ^ (32 - n)"

lemma Cidr_matches_interval:
  assumes "n \<le> 32"
  shows "IpMatcher_matches (let m = prefix_mask (of_nat n) in Cidr (ip_u32 net AND m) m) ip \<longleftrightarrow>
    prefix_base net n \<le> unat (ip_u32 ip) \<and> unat (ip_u32 ip) < prefix_base net n + 2 ^ (32 - n)"
proof -
  have n: "unat (of_nat n :: u32) = n" using assms by (simp add: unsigned_of_nat take_bit_eq_mod)
  then have "(of_nat n :: u32) \<le> 32" using assms by (simp add: word_le_nat_alt)
  from masked_eq_iff_drop_bit [OF this, of "ip_u32 ip" "ip_u32 net"]
  have "IpMatcher_matches (let m = prefix_mask (of_nat n) in Cidr (ip_u32 net AND m) m) ip \<longleftrightarrow>
      drop_bit (32 - n) (ip_u32 ip) = drop_bit (32 - n) (ip_u32 net)"
    by (simp add: Let_def n)
  then show ?thesis using drop_bit_eq_iff_interval [of "32 - n"] by (simp add: prefix_base_def)
qed

lemma Cidr_convex:
  assumes "n \<le> 32" and "m = (let m = prefix_mask (of_nat n) in Cidr (ip_u32 net AND m) m)"
    and "IpMatcher_matches m a" "IpMatcher_matches m b" "a \<le> x" "x \<le> b"
  shows "IpMatcher_matches m x"
  using assms(3-) unfolding assms(2) Cidr_matches_interval [OF assms(1)]
  by (simp add: less_eq_ipv4addr_def word_le_nat_alt)

section \<open>Properties\<close>

text \<open>A multicast group whose address ends in 255 counts as a directed broadcast.\<close>

lemma directed_matches_multicast: "broadcast_type_matches Directed (Ipv4Addr 224 0 0 255)"
  by (simp add: broadcast_type_matches_def)

text \<open>C18: what the parser decides. A configuration is accepted exactly if every line that is neither
  blank nor a comment is a rule, and then its rules are those of the lines, in the order of the file;
  it is refused exactly if some line is not a rule, and then the error reports the number of the
  first such line, counted from 1 over all lines of the file, with its reason.\<close>

theorem parse_decided:
  "(parse content = Inr cfg \<longleftrightarrow>
      list_all2 (\<lambda>(n, l) r. parse_rule l = Inr r) (rule_lines content) (rules cfg)) \<and>
   (parse content = Inl err \<longleftrightarrow>
      (\<exists>pre n l post e. rule_lines content = pre @ (n, l) # post \<and>
         list_all (\<lambda>(m, p). \<exists>r. parse_rule p = Inr r) pre \<and> parse_rule l = Inl e \<and>
         err = line_error n e))"
  unfolding parse_ok_iff parse_error_iff list_all_iff by (intro conjI refl)

end
