(* ===== verification/Bcr_Filter.thy ===== *)
theory Bcr_Filter
  imports Bcr_Config
begin

text \<open>
  \<open>src/src/filter.rs\<close>: the relay decision and the lookup of the rule that carries the NAT
  options.
\<close>

section \<open>Definitions\<close>

record Filter =
  config :: Config

definition Filter_new :: "Config \<Rightarrow> Filter" where
  "Filter_new cfg = \<lparr>config = cfg\<rparr>"

definition should_relay :: "Filter \<Rightarrow> PacketInfo \<Rightarrow> bool" where
  "should_relay self pkt =
     (case find_match (config self) pkt of
        Some rule \<Rightarrow> rule_action rule = Allow
      | None \<Rightarrow> False)"

definition get_nat_rule :: "Filter \<Rightarrow> PacketInfo \<Rightarrow> Rule option" where
  "get_nat_rule self pkt =
     (case find_match (config self) pkt of
        Some r \<Rightarrow> if rule_action r = Allow then Some r else None
      | None \<Rightarrow> None)"

section \<open>Lemmas\<close>

lemma should_relay_iff_nat_rule: "should_relay f pkt \<longleftrightarrow> get_nat_rule f pkt \<noteq> None"
  by (auto simp: should_relay_def get_nat_rule_def split: option.splits if_splits)

lemma get_nat_rule_Some_iff:
  "get_nat_rule f pkt = Some r \<longleftrightarrow> find_match (config f) pkt = Some r \<and> rule_action r = Allow"
  by (auto simp: get_nat_rule_def split: option.splits if_splits)

lemma should_relay_Filter_new:
  "should_relay (Filter_new cfg) pkt \<longleftrightarrow> (\<exists>r. find_match cfg pkt = Some r \<and> rule_action r = Allow)"
  by (auto simp: should_relay_def Filter_new_def split: option.splits)

section \<open>Properties\<close>

text \<open>C15: the first rule that matches decides: a packet is relayed under rule \<open>r\<close> exactly if \<open>r\<close> is
  an allow rule that matches it and no rule before it does; without a match it is dropped.\<close>

theorem first_match_decides:
  "(get_nat_rule (Filter_new cfg) pkt = Some r \<longleftrightarrow>
     rule_action r = Allow \<and> Rule_matches r pkt \<and>
     (\<exists>pre post. rules cfg = pre @ r # post \<and> list_all (\<lambda>p. \<not> Rule_matches p pkt) pre)) \<and>
   (should_relay (Filter_new cfg) pkt \<longleftrightarrow> (\<exists>r. get_nat_rule (Filter_new cfg) pkt = Some r))"
  by (auto simp: get_nat_rule_Some_iff find_match_Some_iff Filter_new_def should_relay_iff_nat_rule
      list_all_iff)

text \<open>A deny rule at the end of a configuration changes nothing, since denial is the default.\<close>

theorem final_deny_redundant:
  assumes "rule_action d = Deny"
  shows "get_nat_rule (Filter_new \<lparr>rules = rs @ [d]\<rparr>) pkt = get_nat_rule (Filter_new \<lparr>rules = rs\<rparr>) pkt"
  using assms find_match_append [of rs "[d]" pkt]
  by (auto simp: get_nat_rule_def Filter_new_def find_match_def split: option.splits)

definition sample_info :: PacketInfo where
  "sample_info = \<lparr>pkt_protocol = Udp, pkt_src_ip = Ipv4Addr 192 168 1 10,
     pkt_dst_ip = Ipv4Addr 255 255 255 255, pkt_src_port = 5353, pkt_dst_port = 9\<rparr>"

theorem final_deny_redundant_witness:
  "get_nat_rule (Filter_new \<lparr>rules = [allow_all_rule, allow_all_rule\<lparr>rule_action := Deny\<rparr>]\<rparr>) sample_info
     = get_nat_rule (Filter_new allow_all) sample_info"
  using final_deny_redundant [of "allow_all_rule\<lparr>rule_action := Deny\<rparr>" "[allow_all_rule]" sample_info]
  by (simp add: allow_all_def)

end
