(* ===== verification/Bcr_Pnet.thy ===== *)
theory Bcr_Pnet
  imports Bcr_Std
begin

text \<open>
  The \<open>pnet\<close> crate is third-party code, so it is a parameter of the model: a record of the
  functions that bcr calls. A packet view (\<open>Ipv4Packet\<close>, \<open>MutableUdpPacket\<close>, ...) is the
  byte slice it was made of; a setter returns the slice with the field written.

  Two locales state what bcr relies on. \<open>pnet_layout\<close>: \<open>new\<close> refuses exactly the slices
  below the minimum packet size, and the accessors read and write the fields of RFC 791 and
  RFC 768 in network byte order; \<open>payload()\<close> may panic, and is relied on only for a header whose length
  field is legal and inside the slice. \<open>pnet_checksums\<close> extends it by the documented meaning of the
  two checksum functions (the Internet checksum of RFC 1071, the checksum field regarded as
  zero). \<open>rfc_pnet\<close> is an implementation of the parameter written from the RFCs; it
  interprets both locales, so their laws are consistent.
\<close>

section \<open>Definitions\<close>

subsection \<open>The interface\<close>

record pnet =
  ipv4_packet_new :: "buf \<Rightarrow> buf option"
  ipv4_get_total_length :: "buf \<Rightarrow> u16"
  ipv4_get_identification :: "buf \<Rightarrow> u16"
  ipv4_get_ttl :: "buf \<Rightarrow> u8"
  ipv4_get_next_level_protocol :: "buf \<Rightarrow> u8"
  ipv4_get_source :: "buf \<Rightarrow> ipv4addr"
  ipv4_get_destination :: "buf \<Rightarrow> ipv4addr"
  ipv4_payload :: "buf \<Rightarrow> buf outcome"
  ipv4_set_identification :: "u16 \<Rightarrow> buf \<Rightarrow> buf"
  ipv4_set_ttl :: "u8 \<Rightarrow> buf \<Rightarrow> buf"
  ipv4_set_checksum :: "u16 \<Rightarrow> buf \<Rightarrow> buf"
  ipv4_set_source :: "ipv4addr \<Rightarrow> buf \<Rightarrow> buf"
  ipv4_set_destination :: "ipv4addr \<Rightarrow> buf \<Rightarrow> buf"
  ipv4_checksum :: "buf \<Rightarrow> u16"
  udp_packet_new :: "buf \<Rightarrow> buf option"
  udp_get_source :: "buf \<Rightarrow> u16"
  udp_get_destination :: "buf \<Rightarrow> u16"
  udp_set_source :: "u16 \<Rightarrow> buf \<Rightarrow> buf"
  udp_set_destination :: "u16 \<Rightarrow> buf \<Rightarrow> buf"
  udp_set_checksum :: "u16 \<Rightarrow> buf \<Rightarrow> buf"
  udp_ipv4_checksum :: "buf \<Rightarrow> ipv4addr \<Rightarrow> ipv4addr \<Rightarrow> u16"

subsection \<open>Header fields\<close>

definition hdr_len :: "buf \<Rightarrow> nat" where
  "hdr_len b = unat (b ! 0 AND 0x0F) * 4"

definition be_ip :: "buf \<Rightarrow> nat \<Rightarrow> ipv4addr" where
  "be_ip b i = Ipv4Addr (b ! i) (b ! (i + 1)) (b ! (i + 2)) (b ! (i + 3))"

fun put_ip :: "nat \<Rightarrow> ipv4addr \<Rightarrow> buf \<Rightarrow> buf" where
  "put_ip i (Ipv4Addr a b c d) x = x[i := a, i + 1 := b, i + 2 := c, i + 3 := d]"

definition ip_payload :: "buf \<Rightarrow> buf" where
  "ip_payload b = take (unat (be16 b 2) - hdr_len b) (drop (hdr_len b) b)"

subsection \<open>The Internet checksum\<close>

fun wsum :: "buf \<Rightarrow> nat" where
  "wsum [] = 0"
| "wsum [a] = unat a * 256"
| "wsum (a # b # r) = unat a * 256 + unat b + wsum r"

function fold16 :: "nat \<Rightarrow> nat" where
  "fold16 n = (if n < 65536 then n else fold16 (n div 65536 + n mod 65536))"
  by pat_completeness auto
termination
proof (relation "measure id")
  fix n :: nat
  assume "\<not> n < 65536"
  moreover have "n = 65536 * (n div 65536) + n mod 65536" by simp
  ultimately show "(n div 65536 + n mod 65536, n) \<in> measure id"
    by (cases "n div 65536") (auto simp del: mult_div_mod_eq)
qed simp

declare fold16.simps [simp del]

definition inet_checksum :: "buf \<Rightarrow> u16" where
  "inet_checksum b = of_nat (65535 - fold16 (wsum b))"

text \<open>What a receiver checks: the one's complement sum over all words is all ones.\<close>

definition checksum_ok :: "buf \<Rightarrow> bool" where
  "checksum_ok b \<longleftrightarrow> fold16 (wsum b) = 65535"

definition pseudo_header :: "ipv4addr \<Rightarrow> ipv4addr \<Rightarrow> nat \<Rightarrow> buf" where
  "pseudo_header src dst len =
     octets src @ octets dst @ [0, 17, hi8 (of_nat len), lo8 (of_nat len)]"

subsection \<open>An implementation from the RFCs\<close>

definition rfc_pnet :: pnet where
  "rfc_pnet = \<lparr>
     ipv4_packet_new = (\<lambda>b. if length b < 20 then None else Some b),
     ipv4_get_total_length = (\<lambda>b. be16 b 2),
     ipv4_get_identification = (\<lambda>b. be16 b 4),
     ipv4_get_ttl = (\<lambda>b. b ! 8),
     ipv4_get_next_level_protocol = (\<lambda>b. b ! 9),
     ipv4_get_source = (\<lambda>b. be_ip b 12),
     ipv4_get_destination = (\<lambda>b. be_ip b 16),
     ipv4_payload = (\<lambda>b. if 20 \<le> hdr_len b \<and> hdr_len b \<le> length b then Ret (ip_payload b) else Panic),
     ipv4_set_identification = put16 4,
     ipv4_set_ttl = (\<lambda>v b. b[8 := v]),
     ipv4_set_checksum = put16 10,
     ipv4_set_source = put_ip 12,
     ipv4_set_destination = put_ip 16,
     ipv4_checksum = (\<lambda>b. inet_checksum (put16 10 0 (take (hdr_len b) b))),
     udp_packet_new = (\<lambda>b. if length b < 8 then None else Some b),
     udp_get_source = (\<lambda>b. be16 b 0),
     udp_get_destination = (\<lambda>b. be16 b 2),
     udp_set_source = put16 0,
     udp_set_destination = put16 2,
     udp_set_checksum = put16 6,
     udp_ipv4_checksum = (\<lambda>b src dst.
       inet_checksum (pseudo_header src dst (length b) @ put16 6 0 b))\<rparr>"

section \<open>The contracts\<close>

locale pnet_layout =
  fixes P :: pnet
  assumes ipv4_new: "ipv4_packet_new P b = (if length b < 20 then None else Some b)"
    and get_total_length: "20 \<le> length b \<Longrightarrow> ipv4_get_total_length P b = be16 b 2"
    and get_identification: "20 \<le> length b \<Longrightarrow> ipv4_get_identification P b = be16 b 4"
    and get_ttl: "20 \<le> length b \<Longrightarrow> ipv4_get_ttl P b = b ! 8"
    and get_protocol: "20 \<le> length b \<Longrightarrow> ipv4_get_next_level_protocol P b = b ! 9"
    and get_source: "20 \<le> length b \<Longrightarrow> ipv4_get_source P b = be_ip b 12"
    and get_destination: "20 \<le> length b \<Longrightarrow> ipv4_get_destination P b = be_ip b 16"
    and payload: "20 \<le> hdr_len b \<Longrightarrow> hdr_len b \<le> length b \<Longrightarrow> ipv4_payload P b = Ret (ip_payload b)"
    and set_identification: "20 \<le> length b \<Longrightarrow> ipv4_set_identification P v b = put16 4 v b"
    and set_ttl: "20 \<le> length b \<Longrightarrow> ipv4_set_ttl P t b = b[8 := t]"
    and set_checksum: "20 \<le> length b \<Longrightarrow> ipv4_set_checksum P v b = put16 10 v b"
    and set_source: "20 \<le> length b \<Longrightarrow> ipv4_set_source P ip b = put_ip 12 ip b"
    and set_destination: "20 \<le> length b \<Longrightarrow> ipv4_set_destination P ip b = put_ip 16 ip b"
    and udp_new: "udp_packet_new P b = (if length b < 8 then None else Some b)"
    and udp_source: "8 \<le> length b \<Longrightarrow> udp_get_source P b = be16 b 0"
    and udp_destination: "8 \<le> length b \<Longrightarrow> udp_get_destination P b = be16 b 2"
    and udp_set_src: "8 \<le> length b \<Longrightarrow> udp_set_source P v b = put16 0 v b"
    and udp_set_dst: "8 \<le> length b \<Longrightarrow> udp_set_destination P v b = put16 2 v b"
    and udp_set_sum: "8 \<le> length b \<Longrightarrow> udp_set_checksum P v b = put16 6 v b"
begin

lemmas ipv4_reads =
  ipv4_new get_total_length get_identification get_ttl get_protocol get_source get_destination

lemmas ipv4_writes =
  set_identification set_ttl set_checksum set_source set_destination

lemmas udp_accessors =
  udp_new udp_source udp_destination udp_set_src udp_set_dst udp_set_sum

end

text \<open>
  The checksum functions. A UDP checksum that computes to zero may be returned as zero or as
  all ones (RFC 768 transmits all ones); the law leaves this open, and only speaks of segments
  whose UDP length field agrees with the slice.
\<close>

locale pnet_checksums = pnet_layout +
  assumes ipv4_sum: "20 \<le> hdr_len b \<Longrightarrow> hdr_len b \<le> length b \<Longrightarrow>
      ipv4_checksum P b = inet_checksum (put16 10 0 (take (hdr_len b) b))"
    and udp_sum: "8 \<le> length s \<Longrightarrow> unat (be16 s 4) = length s \<Longrightarrow>
      c = inet_checksum (pseudo_header src dst (length s) @ put16 6 0 s) \<Longrightarrow>
      udp_ipv4_checksum P s src dst = c \<or> c = 0 \<and> udp_ipv4_checksum P s src dst = 65535"

interpretation rfc: pnet_checksums rfc_pnet
  by unfold_locales (simp_all add: rfc_pnet_def)

section \<open>Lemmas\<close>

subsection \<open>Address fields\<close>

lemma length_put_ip [simp, buf_simps]: "length (put_ip i ip b) = length b"
  by (cases ip) simp

lemma be_ip_put_ip_same [simp, buf_simps]:
  "i + 3 < length b \<Longrightarrow> be_ip (put_ip i ip b) i = ip"
  by (cases ip) (simp add: be_ip_def)

lemma nth_put_ip [buf_simps]: "j < i \<or> i + 3 < j \<Longrightarrow> put_ip i ip b ! j = b ! j"
  by (cases ip) auto

lemma be_ip_cong: "(\<And>k. k \<in> {i..i + 3} \<Longrightarrow> b ! k = c ! k) \<Longrightarrow> be_ip b i = be_ip c i"
  by (simp add: be_ip_def)

lemma be16_nth_cong: "(\<And>k. k \<in> {i..i + 1} \<Longrightarrow> b ! k = c ! k) \<Longrightarrow> be16 b i = be16 c i"
  by (simp add: be16_def)

lemma hdr_len_cong: "b ! 0 = c ! 0 \<Longrightarrow> hdr_len b = hdr_len c"
  by (simp add: hdr_len_def)

lemma hdr_len_le_60: "hdr_len b \<le> 60"
  using and_15_bound [of "b ! 0"] by (simp add: hdr_len_def)

subsection \<open>One's complement sums\<close>

lemma fold16_small [simp]: "n < 65536 \<Longrightarrow> fold16 n = n"
  by (simp add: fold16.simps)

lemma fold16_bounds: "fold16 n < 65536 \<and> (0 < n \<longrightarrow> 0 < fold16 n) \<and> fold16 n mod 65535 = n mod 65535"
proof (induction n rule: fold16.induct)
  case (1 n)
  show ?case
  proof (cases "n < 65536")
    case False
    have "n = 65536 * (n div 65536) + n mod 65536" by simp
    then have "n = 65535 * (n div 65536) + (n div 65536 + n mod 65536)" by linarith
    then have m: "(n div 65536 + n mod 65536) mod 65535 = n mod 65535"
      by (metis mod_mult_self4)
    have "0 < n div 65536" using False by (simp add: div_greater_zero_iff)
    with 1 [OF False] m False show ?thesis by (simp add: fold16.simps [of n])
  qed simp
qed

lemma fold16_all_ones_iff: "fold16 n = 65535 \<longleftrightarrow> 0 < n \<and> n mod 65535 = 0"
proof
  assume "fold16 n = 65535"
  then show "0 < n \<and> n mod 65535 = 0" using fold16_bounds [of n] by (cases "n = 0") auto
next
  assume "0 < n \<and> n mod 65535 = 0"
  then show "fold16 n = 65535"
    using fold16_bounds [of n] by (auto elim!: dvdE simp: mod_eq_0_iff_dvd)
qed

lemma unat_inet_checksum: "unat (inet_checksum b) = 65535 - fold16 (wsum b)"
  using fold16_bounds [of "wsum b"]
  by (simp add: inet_checksum_def unsigned_of_nat take_bit_eq_mod del: of_nat_diff)

lemma wsum_append: "even (length xs) \<Longrightarrow> wsum (xs @ ys) = wsum xs + wsum ys"
  by (induction xs rule: wsum.induct) auto

lemma wsum_put16:
  "even i \<Longrightarrow> Suc i < length b \<Longrightarrow> wsum (put16 i v b) + unat (be16 b i) = wsum b + unat v"
proof (induction b arbitrary: i rule: wsum.induct)
  case (3 x y r)
  show ?case
  proof (cases i)
    case 0
    then show ?thesis
      using unat_hi_lo [of v] by (simp add: put16_def unat_be16)
  next
    case (Suc j)
    with "3.prems" obtain k where i: "i = Suc (Suc k)" "even k" by (cases j) auto
    have "put16 i v (x # y # r) = x # y # put16 k v r" "be16 (x # y # r) i = be16 r k"
      by (simp_all add: i put16_def be16_def)
    with "3.IH" [of k] i "3.prems" show ?thesis by simp
  qed
qed simp_all

lemma checksum_ok_put16:
  assumes i: "even i" "Suc i < length b"
    and v: "v = inet_checksum (put16 i 0 b) \<or> inet_checksum (put16 i 0 b) = 0 \<and> v = 65535"
  shows "checksum_ok (put16 i v b)"
proof -
  let ?z = "put16 i 0 b"
  let ?s = "wsum ?z"
  have "be16 ?z i = 0" using i by simp
  then have "wsum (put16 i v ?z) = ?s + unat v"
    using wsum_put16 [of i ?z v] i by simp
  moreover have "put16 i v ?z = put16 i v b" by (simp add: put16_def list_update_swap)
  ultimately have w: "wsum (put16 i v b) = ?s + unat v" by simp
  define f where "f = fold16 ?s"
  have f: "f < 65536" "0 < f \<longrightarrow> 0 < ?s" "f mod 65535 = ?s mod 65535"
    using fold16_bounds [of ?s] by (cases "?s = 0"; auto simp: f_def)+
  have u: "unat (inet_checksum ?z) = 65535 - f" by (simp add: unat_inet_checksum f_def)
  have cases: "unat v = 65535 - f \<or> f = 65535 \<and> unat v = 65535"
  proof (cases "v = inet_checksum ?z")
    case True
    with u show ?thesis by simp
  next
    case False
    with v have "unat (inet_checksum ?z) = 0" "v = 65535" by auto
    with u f(1) show ?thesis by simp
  qed
  have m: "(?s + unat v) mod 65535 = (f + unat v) mod 65535"
    using f(3) by (metis mod_add_left_eq)
  have "(f + unat v) mod 65535 = 0" using cases f(1) by auto
  moreover have "0 < ?s + unat v" using cases f by auto
  ultimately show ?thesis unfolding checksum_ok_def w fold16_all_ones_iff using m by simp
qed

lemma checksum_ok_append_put16:
  assumes "even (length p)" "even i" "Suc i < length b"
    and "v = inet_checksum (p @ put16 i 0 b) \<or> inet_checksum (p @ put16 i 0 b) = 0 \<and> v = 65535"
  shows "checksum_ok (p @ put16 i v b)"
proof -
  have "put16 (length p + i) w (p @ b) = p @ put16 i w b" for w
    by (simp add: put16_def list_update_append)
  with checksum_ok_put16 [of "length p + i" "p @ b" v] assms show ?thesis by simp
qed

lemma length_octets [simp]: "length (octets ip) = 4"
  by (cases ip) simp

lemma length_pseudo_header [simp]: "length (pseudo_header src dst n) = 12"
  by (simp add: pseudo_header_def)

end
