(* ===== verification/Bcr_Packet.thy ===== *)
theory Bcr_Packet
  imports Bcr_Config Bcr_Pnet
begin

text \<open>
  \<open>src/src/packet.rs\<close>: header validation, the extraction of the fields the rules match on, the
  broadcast test and the loop marker. \<open>P\<close> is the \<open>pnet\<close> parameter. An index out of range and a
  \<open>payload()\<close> of a malformed header may panic, so the functions return an \<open>outcome\<close>.

  \<open>relayable\<close> and \<open>info_of\<close> describe, on the raw bytes, which captured packets the parser
  accepts and what it returns; \<open>extract_packet_info_eq\<close> shows that the code agrees with them.
\<close>

section \<open>Definitions\<close>

definition validate_ipv4_header :: "buf \<Rightarrow> nat option outcome" where
  "validate_ipv4_header b =
     (if length b < 20 then Ret None
      else seq (index b 0) (\<lambda>b0. let version = drop_bit 4 b0 in
        seq (index b 0) (\<lambda>b0. let ihl = unat (b0 AND 0x0F) in
        if version \<noteq> 4 \<or> ihl < 5 then Ret None
        else let header_len = ihl * 4 in
          if header_len > length b then Ret None else Ret (Some header_len))))"

definition is_broadcast :: "ipv4addr \<Rightarrow> bool" where
  "is_broadcast ip \<longleftrightarrow> ip = Ipv4Addr 255 255 255 255 \<or> octets ip ! 3 = 255 \<or> is_multicast ip"

definition RELAY_MARKER_IP_ID :: u16 where
  "RELAY_MARKER_IP_ID = 0xBCBC"

text \<open>\<open>IpNextHeaderProtocols::Udp\<close>, the IANA protocol number of UDP.\<close>

definition PROTO_UDP :: u8 where
  "PROTO_UDP = 17"

definition extract_packet_info :: "pnet \<Rightarrow> buf \<Rightarrow> PacketInfo option outcome" where
  "extract_packet_info P b =
     seq_some (validate_ipv4_header b) (\<lambda>_.
     seq_some (Ret (ipv4_packet_new P b)) (\<lambda>ip_packet.
     let total_length = unat (ipv4_get_total_length P ip_packet) in
     if total_length < 20 \<or> total_length > length b then Ret None
     else let dst_ip = ipv4_get_destination P ip_packet in
     if \<not> is_broadcast dst_ip then Ret None
     else let src_ip = ipv4_get_source P ip_packet in
     if src_ip = Ipv4Addr 0 0 0 0 \<or> is_broadcast src_ip then Ret None
     else let protocol_num = ipv4_get_next_level_protocol P ip_packet in
     seq (ipv4_payload P ip_packet) (\<lambda>payload.
     if protocol_num = PROTO_UDP then
       seq_some (Ret (udp_packet_new P payload)) (\<lambda>udp.
         Ret (Some \<lparr>pkt_protocol = Udp, pkt_src_ip = src_ip, pkt_dst_ip = dst_ip,
           pkt_src_port = udp_get_source P udp, pkt_dst_port = udp_get_destination P udp\<rparr>))
     else Ret None)))"

definition is_already_relayed :: "pnet \<Rightarrow> buf \<Rightarrow> bool outcome" where
  "is_already_relayed P b =
     seq (validate_ipv4_header b) (\<lambda>header_len.
     if header_len = None then Ret False
     else case ipv4_packet_new P b of
        None \<Rightarrow> Ret False
      | Some ip_packet \<Rightarrow> Ret
          (ipv4_get_ttl P ip_packet = 1 \<and> ipv4_get_identification P ip_packet = RELAY_MARKER_IP_ID))"

section \<open>What is accepted, on the raw bytes\<close>

definition header_ok :: "buf \<Rightarrow> bool" where
  "header_ok b \<longleftrightarrow> 20 \<le> length b \<and> drop_bit 4 (b ! 0) = 4 \<and> 20 \<le> hdr_len b \<and> hdr_len b \<le> length b"

definition relayable :: "buf \<Rightarrow> bool" where
  "relayable b \<longleftrightarrow>
     header_ok b \<and> hdr_len b + 8 \<le> unat (be16 b 2) \<and> unat (be16 b 2) \<le> length b \<and> b ! 9 = 17 \<and>
     is_broadcast (be_ip b 16) \<and> be_ip b 12 \<noteq> Ipv4Addr 0 0 0 0 \<and> \<not> is_broadcast (be_ip b 12)"

definition info_of :: "buf \<Rightarrow> PacketInfo" where
  "info_of b = \<lparr>pkt_protocol = Udp, pkt_src_ip = be_ip b 12, pkt_dst_ip = be_ip b 16,
     pkt_src_port = be16 b (hdr_len b), pkt_dst_port = be16 b (hdr_len b + 2)\<rparr>"

definition marked :: "buf \<Rightarrow> bool" where
  "marked b \<longleftrightarrow> header_ok b \<and> b ! 8 = 1 \<and> be16 b 4 = 0xBCBC"

section \<open>Lemmas\<close>

lemma validate_ipv4_header_eq:
  "validate_ipv4_header b = Ret (if header_ok b then Some (hdr_len b) else None)"
proof (cases "length b < 20")
  case False
  then have "index b 0 = Ret (b ! 0)" by (intro index_in_range) linarith
  with False show ?thesis
    by (auto simp: validate_ipv4_header_def header_ok_def hdr_len_def Let_def)
qed (simp add: validate_ipv4_header_def header_ok_def)

lemma header_ok_cong:
  "length b = length c \<Longrightarrow> b ! 0 = c ! 0 \<Longrightarrow> header_ok b = header_ok c"
  by (simp add: header_ok_def hdr_len_def)

lemma is_broadcast_iff: "is_broadcast ip \<longleftrightarrow> octets ip ! 3 = 255 \<or> is_multicast ip"
  by (auto simp: is_broadcast_def)

lemma limited_is_broadcast [simp, ip_simps]: "is_broadcast (Ipv4Addr 255 255 255 255)"
  by (simp add: is_broadcast_def)

lemma not_multicast_limited [simp, ip_simps]: "\<not> is_multicast (Ipv4Addr 255 255 255 255)"
  by (simp add: is_multicast_def)

lemma is_multicast_nibble: "is_multicast (Ipv4Addr a b c d) \<longleftrightarrow> a AND 0xF0 = 0xE0"
  using unat_u8 [of a] by (auto simp: is_multicast_def and_F0_eq_iff word_le_nat_alt)

context pnet_layout
begin

lemma extract_packet_info_eq:
  "extract_packet_info P b = Ret (if relayable b then Some (info_of b) else None)"
proof (cases "header_ok b")
  case False
  then show ?thesis by (simp add: extract_packet_info_def validate_ipv4_header_eq relayable_def)
next
  case True
  then have len: "20 \<le> length b" "20 \<le> hdr_len b" "hdr_len b \<le> length b"
    by (auto simp: header_ok_def)
  then have pay: "ipv4_payload P b = Ret (ip_payload b)" by (simp add: payload)
  let ?t = "unat (be16 b 2)"
  show ?thesis
  proof (cases "hdr_len b + 8 \<le> ?t \<and> ?t \<le> length b")
    case True
    then have l: "8 \<le> length (ip_payload b)" by (auto simp: ip_payload_def)
    have ports: "be16 (ip_payload b) 0 = be16 b (hdr_len b)"
        "be16 (ip_payload b) 2 = be16 b (hdr_len b + 2)"
      unfolding ip_payload_def using True
      by (subst be16_take, linarith, subst be16_drop, linarith, simp)+
    show ?thesis
      using True len l \<open>header_ok b\<close>
      by (auto simp: extract_packet_info_def validate_ipv4_header_eq relayable_def info_of_def
          ipv4_reads pay udp_accessors ports PROTO_UDP_def Let_def)
  next
    case False
    then have "\<not> (20 \<le> ?t \<and> ?t \<le> length b) \<or> length (ip_payload b) < 8"
      using len by (auto simp: ip_payload_def)
    then show ?thesis
      using False len \<open>header_ok b\<close>
      by (auto simp: extract_packet_info_def validate_ipv4_header_eq relayable_def
          ipv4_reads pay udp_accessors Let_def)
  qed
qed

lemma is_already_relayed_eq: "is_already_relayed P b = Ret (marked b)"
  by (auto simp: is_already_relayed_def validate_ipv4_header_eq marked_def header_ok_def
      ipv4_reads RELAY_MARKER_IP_ID_def)

lemma extract_Some_iff: "extract_packet_info P b = Ret (Some info) \<longleftrightarrow> relayable b \<and> info = info_of b"
  by (auto simp: extract_packet_info_eq)

end

lemma relayable_take:
  assumes "relayable b" and "n < unat (be16 b 2)"
  shows "\<not> relayable (take n b)"
proof
  assume r: "relayable (take n b)"
  then have "20 \<le> n" by (auto simp: relayable_def header_ok_def)
  then have "be16 (take n b) 2 = be16 b 2" by (simp add: be16_def)
  with r assms(2) show False by (auto simp: relayable_def)
qed

lemma relayable_append:
  assumes "relayable b"
  shows "relayable (b @ pad) \<and> info_of (b @ pad) = info_of b"
proof -
  from assms have l: "20 \<le> length b" "hdr_len b + 8 \<le> length b"
    by (auto simp: relayable_def header_ok_def)
  then have "length b \<noteq> 0" "(b @ pad) ! 0 = b ! 0" "(b @ pad) ! 9 = b ! 9" "be16 (b @ pad) 2 = be16 b 2"
    "be_ip (b @ pad) 12 = be_ip b 12" "be_ip (b @ pad) 16 = be_ip b 16"
    "be16 (b @ pad) (hdr_len b) = be16 b (hdr_len b)"
    "be16 (b @ pad) (hdr_len b + 2) = be16 b (hdr_len b + 2)"
    by (auto simp: nth_append be16_append be_ip_def)
  moreover from this have "hdr_len (b @ pad) = hdr_len b" by (simp add: hdr_len_def)
  ultimately show ?thesis
    using assms by (auto simp: relayable_def header_ok_def info_of_def)
qed

lemma info_of_protocol [simp]: "pkt_protocol (info_of b) = Udp"
  by (simp add: info_of_def)

section \<open>Properties\<close>

text \<open>A UDP packet to the limited broadcast address.\<close>

definition sample_packet :: buf where
  "sample_packet =
     [0x45, 0, 0, 32, 0x12, 0x34, 0, 0, 64, 17, 0, 0, 192, 168, 1, 10, 255, 255, 255, 255,
      0x14, 0xE9, 0, 9, 0, 12, 0, 0, 97, 98, 99, 100]"

lemma sample_relayable: "relayable sample_packet"
  by code_simp

text \<open>Three consequences worth knowing: DHCP requests (source 0.0.0.0) and the broadcasts of subnets that
  do not end in 255 are not relayed, and a fragment other than the first is taken for a UDP packet.\<close>

lemma dhcp_discover_dropped:
  "extract_packet_info rfc_pnet (sample_packet[12 := 0, 13 := 0, 14 := 0, 15 := 0]) = Ret None"
proof -
  have "\<not> relayable (sample_packet[12 := 0, 13 := 0, 14 := 0, 15 := 0])" by code_simp
  then show ?thesis by (simp add: rfc.extract_packet_info_eq)
qed

lemma subnet_broadcast_dropped:
  "extract_packet_info rfc_pnet (sample_packet[16 := 192, 17 := 168, 18 := 1, 19 := 127]) = Ret None"
proof -
  have "\<not> relayable (sample_packet[16 := 192, 17 := 168, 18 := 1, 19 := 127])" by code_simp
  then show ?thesis by (simp add: rfc.extract_packet_info_eq)
qed

lemma later_fragment_accepted: "\<exists>info. extract_packet_info rfc_pnet (sample_packet[7 := 185]) = Ret (Some info)"
proof -
  have "relayable (sample_packet[7 := 185])" by code_simp
  then show ?thesis by (simp add: rfc.extract_packet_info_eq)
qed

text \<open>C10: the parser accepts exactly the packets with a complete IPv4 header of version 4, a total
  length that holds the header and a UDP header and is inside the captured bytes, protocol UDP, a
  broadcast or multicast destination and a source that is neither that nor 0.0.0.0; it returns the
  addresses and ports of the packet, and never panics.\<close>

theorem extract_exact:
  assumes "pnet_layout P"
  shows "extract_packet_info P b = Ret
    (if 20 \<le> length b \<and> drop_bit 4 (b ! 0) = 4 \<and> 20 \<le> hdr_len b \<and> hdr_len b \<le> length b \<and>
        hdr_len b + 8 \<le> unat (be16 b 2) \<and> unat (be16 b 2) \<le> length b \<and> b ! 9 = 17 \<and>
        is_broadcast (be_ip b 16) \<and> be_ip b 12 \<noteq> Ipv4Addr 0 0 0 0 \<and> \<not> is_broadcast (be_ip b 12)
     then Some \<lparr>pkt_protocol = Udp, pkt_src_ip = be_ip b 12, pkt_dst_ip = be_ip b 16,
            pkt_src_port = be16 b (hdr_len b), pkt_dst_port = be16 b (hdr_len b + 2)\<rparr>
     else None)"
  using pnet_layout.extract_packet_info_eq [OF assms, of b]
  by (simp add: relayable_def header_ok_def info_of_def)

theorem extract_exact_witness:
  "extract_packet_info rfc_pnet sample_packet =
     Ret (Some \<lparr>pkt_protocol = Udp, pkt_src_ip = Ipv4Addr 192 168 1 10, pkt_dst_ip = Ipv4Addr 255 255 255 255,
       pkt_src_port = 5353, pkt_dst_port = 9\<rparr>)"
  unfolding extract_exact [OF rfc.pnet_layout_axioms] by code_simp

text \<open>A packet is taken for an already relayed one exactly if it has a valid IPv4 header with
  TTL 1 and identification 0xBCBC.\<close>

theorem marker_exact:
  assumes "pnet_layout P"
  shows "is_already_relayed P b = Ret
    (20 \<le> length b \<and> drop_bit 4 (b ! 0) = 4 \<and> 20 \<le> hdr_len b \<and> hdr_len b \<le> length b \<and>
     b ! 8 = 1 \<and> be16 b 4 = 0xBCBC)"
  using pnet_layout.is_already_relayed_eq [OF assms, of b] by (simp add: marked_def header_ok_def)

theorem marker_exact_witness: "is_already_relayed rfc_pnet sample_packet = Ret False"
  unfolding marker_exact [OF rfc.pnet_layout_axioms] by code_simp

text \<open>A packet of which the end is missing (fewer captured bytes than its total length) is
  never accepted.\<close>

theorem truncated_rejected:
  assumes "pnet_layout P" and "extract_packet_info P b = Ret (Some info)" and "n < unat (be16 b 2)"
  shows "extract_packet_info P (take n b) = Ret None"
  using assms relayable_take [of b n]
  by (simp add: pnet_layout.extract_packet_info_eq split: if_splits)

theorem truncated_rejected_witness: "extract_packet_info rfc_pnet (take 31 sample_packet) = Ret None"
proof -
  have "extract_packet_info rfc_pnet sample_packet = Ret (Some (info_of sample_packet))"
    by (simp add: rfc.extract_packet_info_eq sample_relayable)
  moreover have "31 < unat (be16 sample_packet 2)" by code_simp
  ultimately show ?thesis by (rule truncated_rejected [OF rfc.pnet_layout_axioms])
qed

end
