(* ===== verification/Bcr_Nat.thy ===== *)
theory Bcr_Nat
  imports Bcr_Packet
begin

text \<open>
  \<open>src/src/nat.rs\<close>: the in-place rewrite of a packet before it is relayed. The functions
  return the buffer they leave behind together with their result (a failed rewrite leaves the
  buffer partly written), or \<open>Panic\<close> where a slice or an \<open>unwrap\<close> would panic.

  \<open>nat_bytes\<close> describes the resulting bytes directly; \<open>apply_nat_eq\<close> shows that the code
  computes it, and the lemmas after it read off fields, frame and checksums.
\<close>

section \<open>Definitions\<close>

definition apply_udp_nat ::
  "pnet \<Rightarrow> buf \<Rightarrow> nat \<Rightarrow> NatOptions \<Rightarrow> ipv4addr \<Rightarrow> ipv4addr \<Rightarrow> (buf \<times> unit result) outcome" where
  "apply_udp_nat P b ip_header_len no src dst =
     seq (slice_from ip_header_len b) (\<lambda>s.
     case udp_packet_new P s of
       None \<Rightarrow> Ret (b, Inl [''Invalid UDP packet''])
     | Some udp0 \<Rightarrow>
         let udp1 = (case source_port no of Some new_sport \<Rightarrow> udp_set_source P new_sport udp0
                     | None \<Rightarrow> udp0);
             udp2 = (case dest_port no of Some new_dport \<Rightarrow> udp_set_destination P new_dport udp1
                     | None \<Rightarrow> udp1);
             checksum = udp_ipv4_checksum P udp2 src dst;
             udp3 = udp_set_checksum P checksum udp2
         in Ret (take ip_header_len b @ udp3, Inr ()))"

definition apply_nat ::
  "pnet \<Rightarrow> buf \<Rightarrow> NatOptions \<Rightarrow> ipv4addr \<Rightarrow> (buf \<times> unit result) outcome" where
  "apply_nat P b no dest_broadcast =
     seq (validate_ipv4_header b) (\<lambda>valid. case valid of
        None \<Rightarrow> Ret (b, Inl [''Malformed IPv4 header''])
      | Some ip_header_len \<Rightarrow>
     (case ipv4_packet_new P b of
        None \<Rightarrow> Ret (b, Inl [''Invalid IP packet''])
      | Some ip0 \<Rightarrow>
     let ip1 = (case source_ip no of Some new_src \<Rightarrow> ipv4_set_source P new_src ip0 | None \<Rightarrow> ip0);
         ip2 = (case dest_ip no of
                  Some new_dst \<Rightarrow> ipv4_set_destination P new_dst ip1
                | None \<Rightarrow> if \<not> is_multicast (ipv4_get_destination P ip1)
                          then ipv4_set_destination P dest_broadcast ip1 else ip1);
         ip3 = ipv4_set_ttl P 1 ip2;
         ip4 = ipv4_set_identification P RELAY_MARKER_IP_ID ip3;
         protocol = ipv4_get_next_level_protocol P ip4;
         final_src = ipv4_get_source P ip4;
         final_dst = ipv4_get_destination P ip4
     in seq (if protocol = PROTO_UDP then apply_udp_nat P ip4 ip_header_len no final_src final_dst
             else Ret (ip4, Inr ()))
       (\<lambda>(b1, r). case r of
          Inl e \<Rightarrow> Ret (b1, Inl e)
        | Inr _ \<Rightarrow> seq (unwrap (ipv4_packet_new P b1)) (\<lambda>ip_pkt.
            let checksum = ipv4_checksum P ip_pkt
            in Ret (ipv4_set_checksum P checksum ip_pkt, Inr ())))))"

section \<open>The resulting bytes\<close>

definition final_src :: "NatOptions \<Rightarrow> buf \<Rightarrow> ipv4addr" where
  "final_src no b = (case source_ip no of Some ip \<Rightarrow> ip | None \<Rightarrow> be_ip b 12)"

definition final_dst :: "NatOptions \<Rightarrow> ipv4addr \<Rightarrow> buf \<Rightarrow> ipv4addr" where
  "final_dst no bcast b =
     (case dest_ip no of Some ip \<Rightarrow> ip
      | None \<Rightarrow> if is_multicast (be_ip b 16) then be_ip b 16 else bcast)"

definition rewrite_ip :: "NatOptions \<Rightarrow> ipv4addr \<Rightarrow> buf \<Rightarrow> buf" where
  "rewrite_ip no bcast b =
     put16 4 RELAY_MARKER_IP_ID
       ((put_ip 16 (final_dst no bcast b) (put_ip 12 (final_src no b) b))[8 := 1])"

definition rewrite_ports :: "NatOptions \<Rightarrow> buf \<Rightarrow> buf" where
  "rewrite_ports no s =
     put16 2 (case dest_port no of Some p \<Rightarrow> p | None \<Rightarrow> be16 s 2)
       (put16 0 (case source_port no of Some p \<Rightarrow> p | None \<Rightarrow> be16 s 0) s)"

definition rewrite_udp :: "pnet \<Rightarrow> NatOptions \<Rightarrow> ipv4addr \<Rightarrow> ipv4addr \<Rightarrow> buf \<Rightarrow> buf" where
  "rewrite_udp P no src dst s =
     put16 6 (udp_ipv4_checksum P (rewrite_ports no s) src dst) (rewrite_ports no s)"

definition nat_body :: "pnet \<Rightarrow> NatOptions \<Rightarrow> ipv4addr \<Rightarrow> buf \<Rightarrow> buf" where
  "nat_body P no bcast b =
     (let h = rewrite_ip no bcast b in
      if b ! 9 = 17
      then take (hdr_len b) h @
           rewrite_udp P no (final_src no b) (final_dst no bcast b) (drop (hdr_len b) h)
      else h)"

definition nat_bytes :: "pnet \<Rightarrow> NatOptions \<Rightarrow> ipv4addr \<Rightarrow> buf \<Rightarrow> buf" where
  "nat_bytes P no bcast b =
     put16 10 (ipv4_checksum P (nat_body P no bcast b)) (nat_body P no bcast b)"

definition nat_ok :: "buf \<Rightarrow> bool" where
  "nat_ok b \<longleftrightarrow> header_ok b \<and> (b ! 9 = 17 \<longrightarrow> hdr_len b + 8 \<le> length b)"

section \<open>Lemmas\<close>

lemma put16_be16 [simp]: "put16 i (be16 b i) b = b"
  by (simp add: put16_def list_update_id)

lemma put_ip_be_ip [simp]: "put_ip i (be_ip b i) b = b"
  by (simp add: be_ip_def)

lemma length_rewrite [simp]:
  "length (rewrite_ip no bcast b) = length b" "length (rewrite_ports no s) = length s"
  "length (rewrite_udp P no src dst s) = length s"
  by (simp_all add: rewrite_ip_def rewrite_ports_def rewrite_udp_def)

lemma length_nat_body [simp]: "header_ok b \<Longrightarrow> length (nat_body P no bcast b) = length b"
  by (simp add: nat_body_def Let_def header_ok_def)

lemma length_nat_bytes [simp]: "header_ok b \<Longrightarrow> length (nat_bytes P no bcast b) = length b"
  by (simp add: nat_bytes_def)

lemma rewrite_ip_nth:
  "i \<notin> {4, 5, 8} \<union> {12..19} \<Longrightarrow> rewrite_ip no bcast b ! i = b ! i"
  by (auto simp: rewrite_ip_def nth_put16 nth_put_ip)

lemma hdr_len_rewrite [simp]: "hdr_len (rewrite_ip no bcast b) = hdr_len b"
  by (rule hdr_len_cong) (simp add: rewrite_ip_nth)

lemma rewrite_ports_nth: "4 \<le> i \<Longrightarrow> rewrite_ports no s ! i = s ! i"
  by (simp add: rewrite_ports_def nth_put16)

context pnet_layout
begin

lemma apply_udp_nat_eq:
  assumes "hl \<le> length b"
  shows "apply_udp_nat P b hl no src dst =
    (if length b < hl + 8 then Ret (b, Inl [''Invalid UDP packet''])
     else Ret (take hl b @ rewrite_udp P no src dst (drop hl b), Inr ()))"
proof (cases "length b < hl + 8")
  case True
  then have "udp_packet_new P (drop hl b) = None" by (simp add: udp_new less_diff_conv2)
  with assms True show ?thesis by (simp add: apply_udp_nat_def)
next
  case False
  let ?s = "drop hl b"
  have s: "8 \<le> length ?s" using False by simp
  have "(case source_port no of None \<Rightarrow> ?s | Some x \<Rightarrow> udp_set_source P x ?s) =
      put16 0 (case source_port no of None \<Rightarrow> be16 ?s 0 | Some p \<Rightarrow> p) ?s" (is "?u1 = ?v1")
    using s by (simp add: udp_accessors split: option.split)
  moreover have "(case dest_port no of None \<Rightarrow> ?v1 | Some x \<Rightarrow> udp_set_destination P x ?v1) =
      rewrite_ports no ?s"
  proof -
    have "be16 ?v1 2 = be16 ?s 2" by (simp add: be16_put16_other)
    then show ?thesis
      using s udp_set_dst [of ?v1] put16_be16 [of 2 ?v1]
      by (auto simp: rewrite_ports_def split: option.split)
  qed
  moreover have "udp_set_checksum P v (rewrite_ports no ?s) = put16 6 v (rewrite_ports no ?s)" for v
    using s by (simp add: udp_accessors)
  ultimately show ?thesis
    using assms s False by (simp add: apply_udp_nat_def udp_new Let_def rewrite_udp_def)
qed

lemma apply_nat_header:
  assumes "20 \<le> length b"
  shows "ipv4_set_identification P RELAY_MARKER_IP_ID (ipv4_set_ttl P 1
      (let ip1 = (case source_ip no of Some s \<Rightarrow> ipv4_set_source P s b | None \<Rightarrow> b) in
       case dest_ip no of
         Some d \<Rightarrow> ipv4_set_destination P d ip1
       | None \<Rightarrow> if \<not> is_multicast (ipv4_get_destination P ip1)
                 then ipv4_set_destination P bcast ip1 else ip1)) = rewrite_ip no bcast b"
proof -
  let ?ip1 = "put_ip 12 (final_src no b) b"
  have 1: "(case source_ip no of Some s \<Rightarrow> ipv4_set_source P s b | None \<Rightarrow> b) = ?ip1"
    using assms by (simp add: final_src_def ipv4_writes split: option.split)
  have d: "be_ip ?ip1 16 = be_ip b 16" by (rule be_ip_cong) (simp add: nth_put_ip)
  have 2: "(case dest_ip no of
         Some d \<Rightarrow> ipv4_set_destination P d ?ip1
       | None \<Rightarrow> if \<not> is_multicast (ipv4_get_destination P ?ip1)
                 then ipv4_set_destination P bcast ?ip1 else ?ip1) = put_ip 16 (final_dst no bcast b) ?ip1"
    using assms put_ip_be_ip [of 16 ?ip1]
    by (auto simp: final_dst_def ipv4_writes ipv4_reads d split: option.split)
  show ?thesis
    unfolding Let_def 1 2 using assms by (simp add: ipv4_writes rewrite_ip_def)
qed

lemma apply_nat_eq:
  "apply_nat P b no bcast =
    (if \<not> header_ok b then Ret (b, Inl [''Malformed IPv4 header''])
     else if \<not> nat_ok b then Ret (rewrite_ip no bcast b, Inl [''Invalid UDP packet''])
     else Ret (nat_bytes P no bcast b, Inr ()))"
proof (cases "header_ok b")
  case False
  then show ?thesis by (simp add: apply_nat_def validate_ipv4_header_eq)
next
  case True
  then have len: "20 \<le> length b" "hdr_len b \<le> length b" "20 \<le> hdr_len b"
    by (auto simp: header_ok_def)
  let ?h = "rewrite_ip no bcast b"
  have reads: "ipv4_get_next_level_protocol P ?h = b ! 9" "ipv4_get_source P ?h = final_src no b"
      "ipv4_get_destination P ?h = final_dst no bcast b"
  proof -
    show "ipv4_get_next_level_protocol P ?h = b ! 9"
      using len by (simp add: get_protocol rewrite_ip_nth)
    have "be_ip ?h 16 = be_ip (put_ip 16 (final_dst no bcast b) (put_ip 12 (final_src no b) b)) 16"
      by (rule be_ip_cong) (simp add: rewrite_ip_def nth_put16)
    then show "ipv4_get_destination P ?h = final_dst no bcast b"
      using len by (simp add: get_destination)
    have "be_ip ?h 12 = be_ip (put_ip 12 (final_src no b) b) 12"
      by (rule be_ip_cong) (simp add: rewrite_ip_def nth_put16 nth_put_ip)
    then show "ipv4_get_source P ?h = final_src no b"
      using len by (simp add: get_source)
  qed
  have finish: "seq (unwrap (ipv4_packet_new P x)) (\<lambda>ip_pkt.
        Ret (ipv4_set_checksum P (ipv4_checksum P ip_pkt) ip_pkt, r)) = Ret (put16 10 (ipv4_checksum P x) x, r)"
    if "20 \<le> length x" for x and r :: "unit result"
    using that by (simp add: ipv4_new set_checksum)
  have udp: "apply_udp_nat P ?h (hdr_len b) no (final_src no b) (final_dst no bcast b) =
      (if length b < hdr_len b + 8 then Ret (?h, Inl [''Invalid UDP packet''])
       else Ret (take (hdr_len b) ?h @
         rewrite_udp P no (final_src no b) (final_dst no bcast b) (drop (hdr_len b) ?h), Inr ()))"
    using len by (simp add: apply_udp_nat_eq)
  have new_b: "ipv4_packet_new P b = Some b" using len by (simp add: ipv4_new)
  have body: "apply_nat P b no bcast =
     seq (if b ! 9 = 17 then apply_udp_nat P ?h (hdr_len b) no (final_src no b) (final_dst no bcast b)
          else Ret (?h, Inr ()))
       (\<lambda>(b1, r). case r of Inl e \<Rightarrow> Ret (b1, Inl e)
        | Inr _ \<Rightarrow> seq (unwrap (ipv4_packet_new P b1)) (\<lambda>ip_pkt.
            Ret (ipv4_set_checksum P (ipv4_checksum P ip_pkt) ip_pkt, Inr ())))"
    using True apply_nat_header [OF len(1), of no bcast] reads
    by (simp add: apply_nat_def validate_ipv4_header_eq new_b Let_def PROTO_UDP_def)
  show ?thesis
  proof (cases "b ! 9 = 17")
    case True
    show ?thesis
      unfolding body udp using True \<open>header_ok b\<close> len
      by (auto simp: nat_ok_def nat_bytes_def nat_body_def Let_def finish)
  next
    case False
    show ?thesis
      unfolding body using False \<open>header_ok b\<close> len
      by (simp add: nat_ok_def nat_bytes_def nat_body_def Let_def finish)
  qed
qed

lemma apply_nat_no_panic: "apply_nat P b no bcast \<noteq> Panic"
  by (simp add: apply_nat_eq)

lemma apply_nat_length: "apply_nat P b no bcast = Ret (b', r) \<Longrightarrow> length b' = length b"
  by (auto simp: apply_nat_eq nat_ok_def split: if_splits)

lemma apply_nat_Ok_iff:
  "apply_nat P b no bcast = Ret (b', Inr ()) \<longleftrightarrow> nat_ok b \<and> b' = nat_bytes P no bcast b"
  by (auto simp: apply_nat_eq nat_ok_def)

end

lemma relayable_nat_ok: "relayable b \<Longrightarrow> nat_ok b"
  by (auto simp: relayable_def nat_ok_def)

subsection \<open>Frame and fields\<close>

lemma nat_body_nth_header:
  assumes "header_ok b" "i < hdr_len b"
  shows "nat_body P no bcast b ! i = rewrite_ip no bcast b ! i"
  using assms by (auto simp: nat_body_def Let_def nth_append header_ok_def)

lemma nat_body_nth_udp:
  assumes "header_ok b" "b ! 9 = 17" "hdr_len b + i < length b"
  shows "nat_body P no bcast b ! (hdr_len b + i) =
    rewrite_udp P no (final_src no b) (final_dst no bcast b) (drop (hdr_len b) (rewrite_ip no bcast b)) ! i"
  using assms by (simp add: nat_body_def Let_def nth_append header_ok_def)

lemma hdr_len_nat_body [simp]: "header_ok b \<Longrightarrow> hdr_len (nat_body P no bcast b) = hdr_len b"
  by (rule hdr_len_cong) (simp add: nat_body_nth_header header_ok_def rewrite_ip_nth)

lemma nat_bytes_nth_header:
  assumes "header_ok b" "i < hdr_len b" "i \<notin> {10, 11}"
  shows "nat_bytes P no bcast b ! i = rewrite_ip no bcast b ! i"
  using assms by (simp add: nat_bytes_def nth_put16 nat_body_nth_header)

lemma nat_bytes_frame:
  assumes "nat_ok b" "i < length b" "i \<notin> {4, 5, 8, 10, 11} \<union> {12..19}"
    and "b ! 9 = 17 \<longrightarrow> i \<notin> {hdr_len b..hdr_len b + 3} \<union> {hdr_len b + 6, hdr_len b + 7}"
  shows "nat_bytes P no bcast b ! i = b ! i"
proof -
  from assms(1) have ok: "header_ok b" "20 \<le> hdr_len b" by (auto simp: nat_ok_def header_ok_def)
  show ?thesis
  proof (cases "i < hdr_len b \<or> b ! 9 \<noteq> 17")
    case True
    have "nat_body P no bcast b ! i = rewrite_ip no bcast b ! i"
      using True ok(1) by (auto simp: nat_body_nth_header) (simp add: nat_body_def Let_def)
    with assms(3) ok(1) show ?thesis
      by (simp add: nat_bytes_def nth_put16 rewrite_ip_nth)
  next
    case False
    then obtain k where k: "i = hdr_len b + k" by (metis le_add_diff_inverse not_less)
    with assms(4) False have k': "4 \<le> k" "k \<noteq> 6" "k \<noteq> 7" by auto
    have "nat_body P no bcast b ! i = drop (hdr_len b) (rewrite_ip no bcast b) ! k"
      using nat_body_nth_udp [of b k P no bcast] ok(1) False assms(2) k k'
      by (simp add: rewrite_udp_def nth_put16 rewrite_ports_nth)
    also have "\<dots> = b ! i"
      using k ok assms(2) by (auto simp: header_ok_def intro!: rewrite_ip_nth)
    finally show ?thesis using ok k by (simp add: nat_bytes_def nth_put16)
  qed
qed

lemma rewrite_ip_fields:
  assumes "20 \<le> length b"
  shows "rewrite_ip no bcast b ! 8 = 1" "be16 (rewrite_ip no bcast b) 4 = RELAY_MARKER_IP_ID"
    "be_ip (rewrite_ip no bcast b) 12 = final_src no b"
    "be_ip (rewrite_ip no bcast b) 16 = final_dst no bcast b"
proof -
  show "rewrite_ip no bcast b ! 8 = 1" "be16 (rewrite_ip no bcast b) 4 = RELAY_MARKER_IP_ID"
    using assms by (simp_all add: rewrite_ip_def nth_put16)
  have "be_ip (rewrite_ip no bcast b) 16 =
      be_ip (put_ip 16 (final_dst no bcast b) (put_ip 12 (final_src no b) b)) 16"
    by (rule be_ip_cong) (simp add: rewrite_ip_def nth_put16)
  then show "be_ip (rewrite_ip no bcast b) 16 = final_dst no bcast b" using assms by simp
  have "be_ip (rewrite_ip no bcast b) 12 = be_ip (put_ip 12 (final_src no b) b) 12"
    by (rule be_ip_cong) (simp add: rewrite_ip_def nth_put16 nth_put_ip)
  then show "be_ip (rewrite_ip no bcast b) 12 = final_src no b" using assms by simp
qed

lemma nat_bytes_header:
  assumes "header_ok b"
  shows "header_ok (nat_bytes P no bcast b)" "hdr_len (nat_bytes P no bcast b) = hdr_len b"
    "nat_bytes P no bcast b ! 8 = 1" "nat_bytes P no bcast b ! 9 = b ! 9"
    "be16 (nat_bytes P no bcast b) 4 = RELAY_MARKER_IP_ID"
    "be16 (nat_bytes P no bcast b) 2 = be16 b 2"
    "be_ip (nat_bytes P no bcast b) 12 = final_src no b"
    "be_ip (nat_bytes P no bcast b) 16 = final_dst no bcast b"
proof -
  have l: "20 \<le> hdr_len b" "20 \<le> length b" using assms by (auto simp: header_ok_def)
  note nth = nat_bytes_nth_header [OF assms, of _ P no bcast]
  note f = rewrite_ip_fields [OF l(2), of no bcast]
  show 0: "hdr_len (nat_bytes P no bcast b) = hdr_len b"
    by (rule hdr_len_cong) (use l in \<open>simp add: nth rewrite_ip_nth\<close>)
  have "nat_bytes P no bcast b ! 0 = b ! 0" using l by (simp add: nth rewrite_ip_nth)
  then show "header_ok (nat_bytes P no bcast b)"
    using assms header_ok_cong [of "nat_bytes P no bcast b" b] by simp
  show "nat_bytes P no bcast b ! 8 = 1" "nat_bytes P no bcast b ! 9 = b ! 9"
    using l f by (simp_all add: nth rewrite_ip_nth)
  have "be16 (nat_bytes P no bcast b) 4 = be16 (rewrite_ip no bcast b) 4"
    by (rule be16_nth_cong) (use l in \<open>auto simp: nth\<close>)
  with f show "be16 (nat_bytes P no bcast b) 4 = RELAY_MARKER_IP_ID" by simp
  show "be16 (nat_bytes P no bcast b) 2 = be16 b 2"
    by (rule be16_nth_cong) (use l in \<open>auto simp: nth rewrite_ip_nth\<close>)
  have "be_ip (nat_bytes P no bcast b) i = be_ip (rewrite_ip no bcast b) i" if "i = 12 \<or> i = 16" for i
    by (rule be_ip_cong) (use l that in \<open>auto simp: nth\<close>)
  with f show "be_ip (nat_bytes P no bcast b) 12 = final_src no b"
      "be_ip (nat_bytes P no bcast b) 16 = final_dst no bcast b" by simp_all
qed

lemma nat_bytes_marked: "header_ok b \<Longrightarrow> marked (nat_bytes P no bcast b)"
  by (simp add: marked_def nat_bytes_header RELAY_MARKER_IP_ID_def)

lemma nat_bytes_udp:
  assumes "nat_ok b" "b ! 9 = 17"
  shows "drop (hdr_len b) (nat_bytes P no bcast b) =
    rewrite_udp P no (final_src no b) (final_dst no bcast b) (drop (hdr_len b) b)"
proof (rule nth_equalityI)
  have ok: "header_ok b" "hdr_len b + 8 \<le> length b" "20 \<le> hdr_len b"
    using assms by (auto simp: nat_ok_def header_ok_def)
  have d: "drop (hdr_len b) (rewrite_ip no bcast b) = drop (hdr_len b) b"
    by (rule nth_equalityI) (use ok in \<open>auto intro!: rewrite_ip_nth\<close>)
  show "length (drop (hdr_len b) (nat_bytes P no bcast b)) =
      length (rewrite_udp P no (final_src no b) (final_dst no bcast b) (drop (hdr_len b) b))"
    using ok by simp
  fix i assume "i < length (drop (hdr_len b) (nat_bytes P no bcast b))"
  then have i: "hdr_len b + i < length b" using ok by simp
  then show "drop (hdr_len b) (nat_bytes P no bcast b) ! i =
      rewrite_udp P no (final_src no b) (final_dst no bcast b) (drop (hdr_len b) b) ! i"
    using nat_body_nth_udp [OF ok(1) assms(2) i] ok
    by (simp add: nat_bytes_def nth_put16 d)
qed

lemma rewrite_udp_fields:
  assumes "8 \<le> length s"
  shows "be16 (rewrite_udp P no src dst s) 0 = (case source_port no of Some p \<Rightarrow> p | None \<Rightarrow> be16 s 0)"
    "be16 (rewrite_udp P no src dst s) 2 = (case dest_port no of Some p \<Rightarrow> p | None \<Rightarrow> be16 s 2)"
    "be16 (rewrite_udp P no src dst s) 4 = be16 s 4"
  using assms by (simp_all add: rewrite_udp_def rewrite_ports_def be16_put16_other)

lemma nat_bytes_ports:
  assumes "nat_ok b" "b ! 9 = 17"
  shows "be16 (nat_bytes P no bcast b) (hdr_len b) =
      (case source_port no of Some p \<Rightarrow> p | None \<Rightarrow> be16 b (hdr_len b))"
    "be16 (nat_bytes P no bcast b) (hdr_len b + 2) =
      (case dest_port no of Some p \<Rightarrow> p | None \<Rightarrow> be16 b (hdr_len b + 2))"
proof -
  let ?r = "nat_bytes P no bcast b" and ?h = "hdr_len b"
  have l: "?h + 8 \<le> length b" "length ?r = length b"
    using assms by (auto simp: nat_ok_def)
  have "be16 ?r ?h = be16 (drop ?h ?r) 0" "be16 ?r (?h + 2) = be16 (drop ?h ?r) 2"
      "be16 b ?h = be16 (drop ?h b) 0" "be16 b (?h + 2) = be16 (drop ?h b) 2"
    using l by (simp_all add: be16_drop)
  then show "be16 ?r ?h = (case source_port no of Some p \<Rightarrow> p | None \<Rightarrow> be16 b ?h)"
      "be16 ?r (?h + 2) = (case dest_port no of Some p \<Rightarrow> p | None \<Rightarrow> be16 b (?h + 2))"
    using l unfolding nat_bytes_udp [OF assms]
    by (simp_all add: rewrite_udp_fields split: option.split)
qed

subsection \<open>Checksums\<close>

lemma take_put16: "Suc i < n \<Longrightarrow> take n (put16 i v b) = put16 i v (take n b)"
  by (simp add: put16_def take_update_swap)

context pnet_checksums
begin

lemma nat_bytes_ip_checksum:
  assumes "header_ok b"
  shows "checksum_ok (take (hdr_len b) (nat_bytes P no bcast b))"
proof -
  let ?x = "nat_body P no bcast b"
  have l: "20 \<le> hdr_len b" "hdr_len b \<le> length b" using assms by (auto simp: header_ok_def)
  have "ipv4_checksum P ?x = inet_checksum (put16 10 0 (take (hdr_len b) ?x))"
    using ipv4_sum [of ?x] assms l by simp
  then have "checksum_ok (put16 10 (ipv4_checksum P ?x) (take (hdr_len b) ?x))"
    using l assms by (intro checksum_ok_put16) auto
  then show ?thesis using l by (simp add: nat_bytes_def take_put16)
qed

lemma nat_bytes_udp_checksum:
  assumes "nat_ok b" "b ! 9 = 17" and udp_len: "unat (be16 b (hdr_len b + 4)) = length b - hdr_len b"
  shows "checksum_ok (pseudo_header (final_src no b) (final_dst no bcast b) (length b - hdr_len b) @
    drop (hdr_len b) (nat_bytes P no bcast b))"
proof -
  let ?s = "rewrite_ports no (drop (hdr_len b) b)"
  let ?src = "final_src no b" and ?dst = "final_dst no bcast b"
  have l: "hdr_len b + 8 \<le> length b" using assms by (auto simp: nat_ok_def)
  then have len: "8 \<le> length ?s" by simp
  have "be16 ?s 4 = be16 (drop (hdr_len b) b) 4"
    by (rule be16_nth_cong) (simp add: rewrite_ports_nth)
  then have "unat (be16 ?s 4) = length ?s"
    using udp_len l by (simp add: be16_drop)
  then have "udp_ipv4_checksum P ?s ?src ?dst =
        inet_checksum (pseudo_header ?src ?dst (length ?s) @ put16 6 0 ?s) \<or>
      inet_checksum (pseudo_header ?src ?dst (length ?s) @ put16 6 0 ?s) = 0 \<and>
        udp_ipv4_checksum P ?s ?src ?dst = 65535"
    using udp_sum [OF len] by blast
  then have "checksum_ok (pseudo_header ?src ?dst (length ?s) @
      put16 6 (udp_ipv4_checksum P ?s ?src ?dst) ?s)"
    using len by (intro checksum_ok_append_put16) auto
  then show ?thesis
    unfolding nat_bytes_udp [OF assms(1,2)] rewrite_udp_def by simp
qed

end

section \<open>Properties\<close>

lemma sample_nat_ok: "nat_ok sample_packet"
  using sample_relayable by (rule relayable_nat_ok)

text \<open>The checksum covers whatever was captured behind the IP header. A frame that the link layer padded
  (here with six zero bytes) leaves with a checksum that a receiver, who goes by the UDP length, finds
  wrong.\<close>

definition padded_packet :: buf where
  "padded_packet = sample_packet @ replicate 6 0"

lemma padding_breaks_udp_checksum:
  "\<exists>b'. apply_nat rfc_pnet padded_packet nat_default (Ipv4Addr 10 0 0 255) = Ret (b', Inr ()) \<and>
     be16 (drop 20 b') 4 = 12 \<and>
     \<not> checksum_ok (pseudo_header (be_ip b' 12) (be_ip b' 16) 12 @ take 12 (drop 20 b'))"
proof -
  let ?b = "nat_bytes rfc_pnet nat_default (Ipv4Addr 10 0 0 255) padded_packet"
  let ?src = "Ipv4Addr 192 168 1 10" and ?dst = "Ipv4Addr 10 0 0 255"
  let ?z = "[0x14, 0xE9, 0, 9, 0, 12, 0, 0, 97, 98, 99, 100, 0, 0, 0, 0, 0, 0] :: buf"
  have b: "nat_ok padded_packet" "padded_packet ! 9 = 17" "hdr_len padded_packet = 20" "drop 20 padded_packet = ?z"
    "rewrite_ports nat_default ?z = ?z" "final_src nat_default padded_packet = ?src"
    "final_dst nat_default ?dst padded_packet = ?dst"
    by code_simp+
  have h: "header_ok padded_packet" using b(1) by (simp add: nat_ok_def)
  have w: "wsum (pseudo_header ?src ?dst 18 @ put16 6 0 ?z) = 108184"
    by (simp add: pseudo_header_def put16_def hi8_def lo8_def)
  have "inet_checksum (pseudo_header ?src ?dst 18 @ put16 6 0 ?z) = 22886"
    unfolding inet_checksum_def w by (simp add: fold16.simps [of 108184])
  moreover have "length ?z = 18" by simp
  ultimately have "udp_ipv4_checksum rfc_pnet ?z ?src ?dst = 22886"
    unfolding rfc_pnet_def pnet.select_convs by metis
  then have s: "drop 20 ?b = put16 6 22886 ?z"
    using nat_bytes_udp [OF b(1,2), of rfc_pnet nat_default ?dst] unfolding b rewrite_udp_def by simp
  have "wsum (pseudo_header ?src ?dst 12 @ take 12 (put16 6 22886 ?z)) = 131064"
    by (simp add: pseudo_header_def put16_def hi8_def lo8_def)
  then have "\<not> checksum_ok (pseudo_header ?src ?dst 12 @ take 12 (put16 6 22886 ?z))"
    by (simp add: checksum_ok_def fold16.simps [of 131064])
  moreover have "be16 (put16 6 22886 ?z) 4 = 12" by code_simp
  moreover have "apply_nat rfc_pnet padded_packet nat_default ?dst = Ret (?b, Inr ())"
    using b(1) by (simp add: rfc.apply_nat_Ok_iff)
  ultimately show ?thesis
    using nat_bytes_header(7,8) [OF h, of rfc_pnet nat_default ?dst] s b(6,7) by auto
qed

text \<open>C3: a rewrite that succeeds sets TTL 1 and the marker, the source address of \<open>snat\<close>, the
  destination of \<open>dnat\<close> (else the broadcast address of the output interface, unless the destination
  is multicast), and the ports of \<open>sport\<close> and \<open>dport\<close>; it succeeds on every packet with a valid
  header and, for UDP, room for the UDP header.\<close>

theorem nat_rewrites_fields:
  assumes "pnet_layout P" and "nat_ok b"
  shows "\<exists>b'. apply_nat P b no bcast = Ret (b', Inr ()) \<and> length b' = length b \<and> hdr_len b' = hdr_len b \<and>
    b' ! 8 = 1 \<and> be16 b' 4 = 0xBCBC \<and>
    be_ip b' 12 = (case source_ip no of Some ip \<Rightarrow> ip | None \<Rightarrow> be_ip b 12) \<and>
    be_ip b' 16 = (case dest_ip no of Some ip \<Rightarrow> ip
      | None \<Rightarrow> if is_multicast (be_ip b 16) then be_ip b 16 else bcast) \<and>
    (b ! 9 = 17 \<longrightarrow>
      be16 b' (hdr_len b) = (case source_port no of Some p \<Rightarrow> p | None \<Rightarrow> be16 b (hdr_len b)) \<and>
      be16 b' (hdr_len b + 2) = (case dest_port no of Some p \<Rightarrow> p | None \<Rightarrow> be16 b (hdr_len b + 2)))"
proof -
  have h: "header_ok b" using assms(2) by (simp add: nat_ok_def)
  have "apply_nat P b no bcast = Ret (nat_bytes P no bcast b, Inr ())"
    using assms by (simp add: pnet_layout.apply_nat_Ok_iff)
  then show ?thesis
    using nat_bytes_header [OF h, of P no bcast] nat_bytes_ports [OF assms(2), of P no bcast] h
    by (auto simp: final_src_def final_dst_def RELAY_MARKER_IP_ID_def)
qed

theorem nat_rewrites_fields_witness:
  "\<exists>b'. apply_nat rfc_pnet sample_packet nat_default (Ipv4Addr 10 0 0 255) = Ret (b', Inr ()) \<and>
     be_ip b' 16 = Ipv4Addr 10 0 0 255 \<and> b' ! 8 = 1"
proof -
  have "dest_ip nat_default = None \<and> \<not> is_multicast (be_ip sample_packet 16)" by code_simp
  with nat_rewrites_fields [OF rfc.pnet_layout_axioms sample_nat_ok, of nat_default "Ipv4Addr 10 0 0 255"]
  show ?thesis by auto
qed

text \<open>C4: after a successful rewrite the IPv4 header checksum is valid, whatever options the header
  carries.\<close>

theorem nat_header_checksum:
  assumes "pnet_checksums P" and "apply_nat P b no bcast = Ret (b', Inr ())"
  shows "checksum_ok (take (hdr_len b') b')"
proof -
  note layout = pnet_checksums.axioms(1) [OF assms(1)]
  from assms(2) have "nat_ok b" "b' = nat_bytes P no bcast b"
    by (simp_all add: pnet_layout.apply_nat_Ok_iff [OF layout])
  then show ?thesis
    using pnet_checksums.nat_bytes_ip_checksum [OF assms(1), of b no bcast]
      nat_bytes_header(2) [of b P no bcast] by (simp add: nat_ok_def)
qed

theorem nat_header_checksum_witness:
  "\<exists>b'. apply_nat rfc_pnet sample_packet nat_default (Ipv4Addr 10 0 0 255) = Ret (b', Inr ()) \<and>
     checksum_ok (take (hdr_len b') b')"
proof -
  obtain b' where b': "apply_nat rfc_pnet sample_packet nat_default (Ipv4Addr 10 0 0 255) = Ret (b', Inr ())"
    using sample_nat_ok by (simp add: rfc.apply_nat_Ok_iff)
  from nat_header_checksum [OF rfc.pnet_checksums_axioms b'] b' show ?thesis by blast
qed

text \<open>C5: after a successful rewrite of a UDP packet whose UDP length is exactly the number of bytes captured
  behind the IP header (no padding of the link layer, see \<open>padding_breaks_udp_checksum\<close>), the UDP
  checksum is valid over the pseudo-header of the new addresses, the new ports and the payload.\<close>

theorem nat_udp_checksum:
  assumes "pnet_checksums P" and "apply_nat P b no bcast = Ret (b', Inr ())" and "b ! 9 = 17"
    and "unat (be16 b (hdr_len b + 4)) = length b - hdr_len b"
  shows "checksum_ok (pseudo_header (be_ip b' 12) (be_ip b' 16) (length b' - hdr_len b') @
    drop (hdr_len b') b')"
proof -
  note layout = pnet_checksums.axioms(1) [OF assms(1)]
  from assms(2) have b: "nat_ok b" "b' = nat_bytes P no bcast b"
    by (simp_all add: pnet_layout.apply_nat_Ok_iff [OF layout])
  then have h: "header_ok b" by (simp add: nat_ok_def)
  show ?thesis
    using pnet_checksums.nat_bytes_udp_checksum [OF assms(1) b(1) assms(3,4), of no bcast]
      nat_bytes_header [OF h, of P no bcast] h by (simp add: b(2))
qed

theorem nat_udp_checksum_witness:
  "\<exists>b'. apply_nat rfc_pnet sample_packet nat_default (Ipv4Addr 10 0 0 255) = Ret (b', Inr ()) \<and>
     checksum_ok (pseudo_header (be_ip b' 12) (be_ip b' 16) (length b' - hdr_len b') @ drop (hdr_len b') b')"
proof -
  obtain b' where b': "apply_nat rfc_pnet sample_packet nat_default (Ipv4Addr 10 0 0 255) = Ret (b', Inr ())"
    using sample_nat_ok by (simp add: rfc.apply_nat_Ok_iff)
  have "sample_packet ! 9 = 17"
    "unat (be16 sample_packet (hdr_len sample_packet + 4)) = length sample_packet - hdr_len sample_packet"
    by code_simp+
  from nat_udp_checksum [OF rfc.pnet_checksums_axioms b' this] b' show ?thesis by blast
qed

text \<open>C30: the rewrite never panics and its result is determined for every input: a malformed header
  leaves the packet as it is, a UDP packet without room for its header is reported after the IP
  header was rewritten, and the length is always kept.\<close>

theorem apply_nat_total:
  assumes "pnet_layout P"
  shows "\<exists>b' r. apply_nat P b no bcast = Ret (b', r) \<and> length b' = length b \<and>
    r = (if \<not> header_ok b then Inl [''Malformed IPv4 header'']
         else if b ! 9 = 17 \<and> length b < hdr_len b + 8 then Inl [''Invalid UDP packet'']
         else Inr ()) \<and>
    (\<not> header_ok b \<longrightarrow> b' = b)"
  using pnet_layout.apply_nat_eq [OF assms, of b no bcast] by (auto simp: nat_ok_def)

theorem apply_nat_total_witness:
  "\<exists>b' r. apply_nat rfc_pnet [] nat_default limited_broadcast = Ret (b', r) \<and> b' = [] \<and>
     r = Inl [''Malformed IPv4 header'']"
  using apply_nat_total [OF rfc.pnet_layout_axioms, of "[]" nat_default limited_broadcast]
  by (simp add: header_ok_def)

text \<open>C13: no captured bytes can crash the parsing path. For every byte string, of any length and content, and
  every rewrite, none of the header check, the loop test, the parser and the rewrite indexes or slices
  out of bounds or unwraps a missing packet, although \<open>payload()\<close> of \<open>pnet\<close> may panic for a malformed
  header.\<close>

theorem parsing_path_never_panics:
  assumes "pnet_layout P"
  shows "validate_ipv4_header b \<noteq> Panic \<and> is_already_relayed P b \<noteq> Panic \<and>
    extract_packet_info P b \<noteq> Panic \<and> apply_nat P b no bcast \<noteq> Panic"
  using pnet_layout.apply_nat_no_panic [OF assms, of b no bcast]
  by (simp add: validate_ipv4_header_eq pnet_layout.is_already_relayed_eq [OF assms]
      pnet_layout.extract_packet_info_eq [OF assms])

text \<open>A header length of 60 bytes on a packet of 28, for which \<open>payload()\<close> does panic.\<close>

definition long_header :: buf where
  "long_header = 0x4F # replicate 27 0x33"

theorem parsing_path_never_panics_witness:
  "ipv4_payload rfc_pnet long_header = Panic \<and> is_already_relayed rfc_pnet long_header \<noteq> Panic \<and>
   extract_packet_info rfc_pnet long_header \<noteq> Panic"
proof -
  have "hdr_len long_header = 60" "length long_header = 28" by code_simp+
  then have "ipv4_payload rfc_pnet long_header = Panic" by (simp add: rfc_pnet_def)
  with parsing_path_never_panics [OF rfc.pnet_layout_axioms, of long_header] show ?thesis by blast
qed

text \<open>C31: a successful rewrite changes nothing but the identification, TTL, checksum and addresses of
  the IPv4 header and the ports and checksum of the UDP header: options, flags, lengths and payload
  are relayed as received.\<close>

theorem nat_frame:
  assumes "pnet_layout P" and "apply_nat P b no bcast = Ret (b', Inr ())" and "i < length b"
    and "i \<notin> {4, 5, 8, 10, 11} \<union> {12..19}"
    and "b ! 9 = 17 \<longrightarrow> i \<notin> {hdr_len b..hdr_len b + 3} \<union> {hdr_len b + 6, hdr_len b + 7}"
  shows "b' ! i = b ! i"
  using assms nat_bytes_frame [of b i P no bcast] by (simp add: pnet_layout.apply_nat_Ok_iff)

theorem nat_frame_witness:
  "\<exists>b'. apply_nat rfc_pnet sample_packet nat_default (Ipv4Addr 10 0 0 255) = Ret (b', Inr ()) \<and>
     b' ! 31 = 100"
proof -
  obtain b' where b': "apply_nat rfc_pnet sample_packet nat_default (Ipv4Addr 10 0 0 255) = Ret (b', Inr ())"
    using sample_nat_ok by (simp add: rfc.apply_nat_Ok_iff)
  have "hdr_len sample_packet = 20" "31 < length sample_packet" "sample_packet ! 31 = 100"
    by code_simp+
  with nat_frame [OF rfc.pnet_layout_axioms b', of 31] b' show ?thesis by simp
qed

end
