(* ===== verification/Bcr_F64.thy ===== *)
theory Bcr_F64
  imports Bcr_Prelude "HOL-Library.Log_Nat"
begin

text \<open>
  The \<open>f64\<close> arithmetic of the rate limiter. A finite binary64 number is a rational, and an
  operation returns the exact result rounded to 53 significant bits, ties to even
  (IEEE 754). The exponent range is not bounded in the model: the limiter's values lie between
  \<open>1e-9\<close> and \<open>2 ^ 97\<close>, far from underflow and overflow.

  The locale \<open>rounding\<close> is what the limiter's proofs use of the rounding function; it is
  interpreted on \<open>f64_round\<close>.
\<close>

section \<open>Definitions\<close>

text \<open>The power of two that scales a positive number into \<open>2^52 .. 2^53\<close>.\<close>

definition f64_scale :: "rat \<Rightarrow> int" where
  "f64_scale x =
     (let (a, b) = quotient_of x; s = 53 + bitlen b - bitlen a in
      if x * 2 powi s < 2 ^ 53 then s else s - 1)"

definition round_half_even :: "rat \<Rightarrow> int" where
  "round_half_even y =
     (let f = \<lfloor>y\<rfloor>; d = y - of_int f in
      if d < 1 / 2 then f
      else if d > 1 / 2 then f + 1
      else if even f then f else f + 1)"

definition f64_round_pos :: "rat \<Rightarrow> rat" where
  "f64_round_pos x =
     (let s = f64_scale x in of_int (round_half_even (x * 2 powi s)) * 2 powi (- s))"

definition f64_round :: "rat \<Rightarrow> rat" where
  "f64_round x =
     (if x = 0 then 0 else if x < 0 then - f64_round_pos (- x) else f64_round_pos x)"

definition f64_add :: "rat \<Rightarrow> rat \<Rightarrow> rat" where
  "f64_add x y = f64_round (x + y)"

definition f64_sub :: "rat \<Rightarrow> rat \<Rightarrow> rat" where
  "f64_sub x y = f64_round (x - y)"

definition f64_mul :: "rat \<Rightarrow> rat \<Rightarrow> rat" where
  "f64_mul x y = f64_round (x * y)"

definition f64_div :: "rat \<Rightarrow> rat \<Rightarrow> rat" where
  "f64_div x y = f64_round (x / y)"

text \<open>The unit roundoff \<open>2^-53\<close>: the relative error of one operation.\<close>

definition f64_eps :: rat where
  "f64_eps = 1 / 2 ^ 53"

section \<open>The contract of the rounding function\<close>

lemma f64_eps_bounds: "0 < f64_eps" "f64_eps \<le> 1 / 2"
  by (simp_all add: f64_eps_def)

locale rounding =
  fixes rnd :: "rat \<Rightarrow> rat"
  assumes rnd_int: "0 \<le> n \<Longrightarrow> n \<le> 2 ^ 53 \<Longrightarrow> rnd (of_int n) = of_int n"
    and rnd_error: "0 \<le> x \<Longrightarrow> \<bar>rnd x - x\<bar> \<le> f64_eps * x"
    and rnd_ge_1: "1 \<le> x \<Longrightarrow> 1 \<le> rnd x"
begin

lemma rnd_0 [simp]: "rnd 0 = 0"
  using rnd_int [of 0] by simp

lemma rnd_upper: "0 \<le> x \<Longrightarrow> rnd x \<le> x + f64_eps * x"
  using rnd_error [of x] by (simp add: abs_le_iff algebra_simps)

lemma rnd_nonneg: "0 \<le> x \<Longrightarrow> 0 \<le> rnd x"
proof -
  assume x: "0 \<le> x"
  then have "x - f64_eps * x \<le> rnd x" using rnd_error [of x] by (simp add: abs_le_iff algebra_simps)
  moreover have "f64_eps * x \<le> x"
    using x f64_eps_bounds by (intro mult_left_le_one_le) auto
  ultimately show ?thesis by simp
qed

lemma rnd_upper_cap: "0 \<le> x \<Longrightarrow> x \<le> c \<Longrightarrow> rnd x \<le> x + f64_eps * c"
proof -
  assume "0 \<le> x" "x \<le> c"
  then have "rnd x \<le> x + f64_eps * x" "f64_eps * x \<le> f64_eps * c"
    using rnd_upper f64_eps_bounds by (auto intro: mult_left_mono)
  then show ?thesis by linarith
qed

text \<open>Rounding below a cap loses little, and rounding above it is cut off.\<close>

lemma min_rnd_le: "0 \<le> x \<Longrightarrow> 0 \<le> c \<Longrightarrow> min (rnd x) c \<le> x + f64_eps * c"
proof (cases "x \<le> c")
  case True
  assume "0 \<le> x"
  with True show ?thesis using rnd_upper_cap [of x c] by simp
next
  case False
  assume "0 \<le> c"
  then have "0 \<le> f64_eps * c" using f64_eps_bounds by simp
  with False show ?thesis by simp
qed

end

section \<open>The rounding function meets its contract\<close>

lemma pow2_le_1: "j \<le> 0 \<Longrightarrow> (2 :: rat) powi j \<le> 1"
  by (simp add: power_int_def power_le_one)

lemma round_half_even_int [simp]: "round_half_even (of_int n) = n"
  by (simp add: round_half_even_def)

lemma round_half_even_error: "\<bar>of_int (round_half_even y) - y\<bar> \<le> 1 / 2"
proof -
  define d where "d = y - of_int \<lfloor>y\<rfloor>"
  have "0 \<le> d" "d < 1" by (simp_all add: d_def) linarith
  moreover have "y = of_int \<lfloor>y\<rfloor> + d" by (simp add: d_def)
  ultimately show ?thesis
    unfolding round_half_even_def Let_def d_def [symmetric] by (auto simp: abs_le_iff)
qed

lemma round_half_even_ge: "of_int n \<le> y \<Longrightarrow> n \<le> round_half_even y"
proof -
  assume "of_int n \<le> y"
  then have "n \<le> \<lfloor>y\<rfloor>" by (simp add: le_floor_iff)
  then show ?thesis by (auto simp: round_half_even_def Let_def)
qed

lemma f64_scale_bounds:
  assumes "0 < x"
  shows "2 ^ 52 \<le> x * 2 powi f64_scale x \<and> x * 2 powi f64_scale x < 2 ^ 53"
proof -
  obtain a b where q: "quotient_of x = (a, b)" by (cases "quotient_of x")
  have b: "0 < b" using q by (rule quotient_of_denom_pos)
  have x: "x = of_int a / of_int b" using q by (rule quotient_of_div)
  with assms b have a: "0 < a" by (simp add: zero_less_divide_iff)
  let ?la = "bitlen a" and ?lb = "bitlen b"
  have la: "2 ^ nat (?la - 1) \<le> a" "a < 2 ^ nat ?la" using bitlen_bounds [OF a] by auto
  have lb: "2 ^ nat (?lb - 1) \<le> b" "b < 2 ^ nat ?lb" using bitlen_bounds [OF b] by auto
  have pos: "1 \<le> ?la" "1 \<le> ?lb" using a b by (auto simp: bitlen_alt_def)
  have A: "2 powi (?la - 1) \<le> (of_int a :: rat)" "(of_int a :: rat) < 2 powi ?la"
    using la pos of_int_le_iff [of "2 ^ nat (?la - 1)" a, where 'a = rat]
      of_int_less_iff [of a "2 ^ nat ?la", where 'a = rat]
    by (simp_all add: power_int_def)
  have B: "2 powi (?lb - 1) \<le> (of_int b :: rat)" "(of_int b :: rat) < 2 powi ?lb"
    using lb pos of_int_le_iff [of "2 ^ nat (?lb - 1)" b, where 'a = rat]
      of_int_less_iff [of b "2 ^ nat ?lb", where 'a = rat]
    by (simp_all add: power_int_def)
  define s where "s = 53 + ?lb - ?la"
  let ?y = "x * 2 powi s"
  have pw: "(2::rat) powi (i + j) = 2 powi i * 2 powi j" for i j
    by (simp add: power_int_add)
  have bpos: "(0::rat) < of_int b" using b by simp
  have y: "?y * of_int b = of_int a * 2 powi s" using b by (simp add: x)
  have "2 ^ 52 * of_int b < (2::rat) ^ 52 * 2 powi ?lb" using B by (intro mult_strict_left_mono) auto
  also have "\<dots> = 2 powi (?la - 1) * 2 powi s"
    unfolding pw [symmetric] by (simp add: s_def pw)
  also have "\<dots> \<le> of_int a * 2 powi s" using A by (intro mult_right_mono) auto
  finally have lo: "2 ^ 52 < ?y" using y bpos by (metis mult_less_cancel_right_pos)
  have "of_int a * 2 powi s < (2::rat) powi ?la * 2 powi s" using A by simp
  also have "\<dots> = 2 ^ 54 * 2 powi (?lb - 1)"
  proof -
    have "(2::rat) powi ?la * 2 powi s = 2 powi (53 + ?lb)" by (simp add: s_def flip: pw)
    also have "\<dots> = 2 powi (54 + (?lb - 1))" by simp
    also have "\<dots> = 2 ^ 54 * 2 powi (?lb - 1)" unfolding pw by simp
    finally show ?thesis .
  qed
  also have "\<dots> \<le> 2 ^ 54 * of_int b" using B by simp
  finally have hi: "?y < 2 ^ 54" using y bpos by (metis mult_less_cancel_right_pos)
  have sc: "f64_scale x = (if ?y < 2 ^ 53 then s else s - 1)"
    by (simp add: f64_scale_def q s_def Let_def)
  have half: "x * 2 powi (s - 1) = ?y / 2" by (simp add: power_int_diff)
  show ?thesis
  proof (cases "?y < 2 ^ 53")
    case True
    with lo sc show ?thesis by simp
  next
    case False
    with hi have "2 ^ 52 \<le> ?y / 2" "?y / 2 < 2 ^ 53" by simp_all
    with False sc half show ?thesis by presburger
  qed
qed

lemma f64_round_of_pos: "0 < x \<Longrightarrow> f64_round x = f64_round_pos x"
  by (simp add: f64_round_def)

lemma f64_round_pos_eq:
  assumes "0 < x"
  obtains y s where "x = y * 2 powi (- s)" "2 ^ 52 \<le> y" "y < 2 ^ 53"
    "f64_round x = of_int (round_half_even y) * 2 powi (- s)"
proof -
  let ?s = "f64_scale x"
  have "x = (x * 2 powi ?s) * 2 powi (- ?s)" by (simp add: power_int_minus)
  with that [of "x * 2 powi ?s" ?s] f64_scale_bounds [OF assms] assms show ?thesis
    by (simp add: f64_round_of_pos f64_round_pos_def Let_def)
qed

lemma f64_round_error:
  assumes "0 \<le> x"
  shows "\<bar>f64_round x - x\<bar> \<le> f64_eps * x"
proof (cases "x = 0")
  case True
  then show ?thesis by (simp add: f64_round_def)
next
  case False
  with assms have "0 < x" by simp
  then obtain y s where x: "x = y * 2 powi (- s)" and y: "2 ^ 52 \<le> y"
    and r: "f64_round x = of_int (round_half_even y) * 2 powi (- s)"
    by (rule f64_round_pos_eq)
  define p where "p = (2::rat) powi (- s)"
  have p: "0 < p" by (simp add: p_def)
  have "f64_round x - x = (of_int (round_half_even y) - y) * p"
    unfolding r by (simp add: x p_def left_diff_distrib)
  then have "\<bar>f64_round x - x\<bar> = \<bar>of_int (round_half_even y) - y\<bar> * p"
    using p by (simp add: abs_mult)
  also have "\<dots> \<le> 1 / 2 * p"
    using round_half_even_error [of y] p by (intro mult_right_mono) auto
  also have "\<dots> \<le> f64_eps * y * p"
    using y p by (intro mult_right_mono) (auto simp: f64_eps_def)
  also have "\<dots> = f64_eps * x" unfolding x p_def by (simp add: mult.assoc)
  finally show ?thesis .
qed

lemma f64_round_int:
  assumes "0 \<le> n" "n \<le> 2 ^ 53"
  shows "f64_round (of_int n) = of_int n"
proof (cases "n = 0")
  case True
  then show ?thesis by (simp add: f64_round_def)
next
  case False
  with assms have "(0::rat) < of_int n" by simp
  then obtain y s where n: "of_int n = y * 2 powi (- s)" and y: "2 ^ 52 \<le> y" "y < 2 ^ 53"
    and r: "f64_round (of_int n) = of_int (round_half_even y) * 2 powi (- s)"
    by (rule f64_round_pos_eq)
  have yn: "y = of_int n * 2 powi s" by (simp add: n power_int_minus mult.assoc)
  have "\<exists>m. y = of_int m"
  proof (cases "0 \<le> s")
    case True
    then have "y = of_int (n * 2 ^ nat s)" by (simp add: yn power_int_def)
    then show ?thesis by blast
  next
    case False
    then have s: "- s = 1 + (- s - 1)" "0 \<le> - s - 1" by simp_all
    have "(1::rat) \<le> 2 powi (- s - 1)" using s(2) by (simp add: power_int_def)
    moreover have n2: "of_int n = 2 * y * 2 powi (- s - 1)"
      unfolding n by (subst s(1), subst power_int_add) auto
    moreover have "2 ^ 53 \<le> 2 * y" using y by simp
    ultimately have "2 ^ 53 * 1 \<le> (of_int n :: rat)" unfolding n2 by (intro mult_mono) auto
    then have "(of_int (2 ^ 53) :: rat) \<le> of_int n" by simp
    then have "n = 2 ^ 53" using assms of_int_le_iff by fastforce
    then have "y = 2 powi 53 * 2 powi s" using yn by simp
    also have "\<dots> = 2 powi (53 + s)" by (simp add: power_int_add)
    finally have "y = 2 powi (53 + s)" .
    moreover have "0 \<le> 53 + s"
    proof (rule ccontr)
      assume "\<not> 0 \<le> 53 + s"
      then have "(2::rat) powi (53 + s) \<le> 1" by (simp add: pow2_le_1)
      with calculation y show False by simp
    qed
    ultimately have "y = of_int (2 ^ nat (53 + s))" by (simp add: power_int_def)
    then show ?thesis by blast
  qed
  then show ?thesis using r n by auto
qed

lemma f64_round_ge_1:
  assumes "1 \<le> x"
  shows "1 \<le> f64_round x"
proof -
  from assms have "0 < x" by simp
  then obtain y s where x: "x = y * 2 powi (- s)" and y: "2 ^ 52 \<le> y" "y < 2 ^ 53"
    and r: "f64_round x = of_int (round_half_even y) * 2 powi (- s)"
    by (rule f64_round_pos_eq)
  have "\<exists>m. 2 powi s \<le> (of_int m :: rat) \<and> of_int m \<le> y"
  proof (cases "0 \<le> s")
    case True
    have "2 powi s * 1 \<le> 2 powi s * x" using assms by (intro mult_left_mono) auto
    also have "\<dots> = y" by (simp add: x power_int_minus)
    finally have "2 powi s \<le> y" by simp
    moreover have "(2::rat) powi s = of_int (2 ^ nat s)" using True by (simp add: power_int_def)
    ultimately show ?thesis by (metis order_refl)
  next
    case False
    then have "(2::rat) powi s \<le> 1" by (simp add: pow2_le_1)
    then show ?thesis using y by (intro exI [of _ "2 ^ 52"]) auto
  qed
  then obtain m where m: "2 powi s \<le> (of_int m :: rat)" "of_int m \<le> y" by blast
  then have "(of_int m :: rat) \<le> of_int (round_half_even y)"
    by (simp add: round_half_even_ge)
  with m(1) have "2 powi s * 2 powi (- s) \<le> of_int (round_half_even y) * (2::rat) powi (- s)"
    by (intro mult_right_mono) auto
  then show ?thesis by (simp add: r power_int_minus)
qed

interpretation f64: rounding f64_round
  by unfold_locales (fact f64_round_int f64_round_error f64_round_ge_1)+

end
