(* ===== verification/Bcr_Ratelimit.thy ===== *)
theory Bcr_Ratelimit
  imports Bcr_F64
begin

text \<open>
  \<open>src/src/ratelimit.rs\<close>: the token bucket, in the \<open>f64\<close> arithmetic of the code. An
  \<open>Instant\<close> is a number of nanoseconds of the monotonic clock; the reading of the clock is an
  input of each operation.

  The locale \<open>bounded_limiter\<close> is the contract the relay relies on (a step consumes what it
  admits from a level that only grows by a known gain); \<open>allow\<close> interprets it.
\<close>

section \<open>Definitions\<close>

record RateLimiter =
  rl_rate :: rat
  rl_burst :: rat
  rl_tokens :: rat
  rl_last :: nat

text \<open>\<open>u32 as f64\<close> is exact.\<close>

definition u32_f64 :: "u32 \<Rightarrow> rat" where
  "u32_f64 x = of_nat (unat x)"

definition RateLimiter_new :: "u32 \<Rightarrow> u32 \<Rightarrow> nat \<Rightarrow> RateLimiter" where
  "RateLimiter_new rate burst now =
     (let b = u32_f64 (max burst 1) in
      \<lparr>rl_rate = u32_f64 rate, rl_burst = b, rl_tokens = b, rl_last = now\<rparr>)"

text \<open>\<open>Instant::duration_since\<close> is zero where the clock did not advance.\<close>

definition duration_since :: "nat \<Rightarrow> nat \<Rightarrow> nat" where
  "duration_since now earlier = now - earlier"

text \<open>\<open>Duration::as_secs_f64\<close>: the seconds plus the nanoseconds divided by a billion.\<close>

definition as_secs_f64 :: "nat \<Rightarrow> rat" where
  "as_secs_f64 d =
     f64_add (f64_round (of_nat (d div 1000000000)))
       (f64_div (f64_round (of_nat (d mod 1000000000))) 1000000000)"

definition allow :: "nat \<Rightarrow> RateLimiter \<Rightarrow> bool \<times> RateLimiter" where
  "allow now self =
     (let elapsed = as_secs_f64 (duration_since now (rl_last self));
          self1 = self\<lparr>rl_last := now\<rparr>;
          tokens = min (f64_add (rl_tokens self1) (f64_mul elapsed (rl_rate self1))) (rl_burst self1);
          self2 = self1\<lparr>rl_tokens := tokens\<rparr>
      in if 1 \<le> tokens then (True, self2\<lparr>rl_tokens := f64_sub tokens 1\<rparr>)
         else (False, self2))"

section \<open>The contract\<close>

fun run_steps :: "('e \<Rightarrow> 's \<Rightarrow> bool \<times> 's) \<Rightarrow> 'e list \<Rightarrow> 's \<Rightarrow> bool list \<times> 's" where
  "run_steps step [] s = ([], s)"
| "run_steps step (e # es) s =
     (let (ok, s1) = step e s; (oks, s2) = run_steps step es s1 in (ok # oks, s2))"

fun total_gain :: "('e \<Rightarrow> 's \<Rightarrow> bool \<times> 's) \<Rightarrow> ('e \<Rightarrow> 's \<Rightarrow> rat) \<Rightarrow> 'e list \<Rightarrow> 's \<Rightarrow> rat" where
  "total_gain step gain [] s = 0"
| "total_gain step gain (e # es) s = gain e s + total_gain step gain es (snd (step e s))"

locale bounded_limiter =
  fixes step :: "'e \<Rightarrow> 's \<Rightarrow> bool \<times> 's"
    and inv :: "'s \<Rightarrow> bool"
    and level :: "'s \<Rightarrow> rat"
    and gain :: "'e \<Rightarrow> 's \<Rightarrow> rat"
  assumes inv_step: "inv s \<Longrightarrow> inv (snd (step e s))"
    and level_nonneg: "inv s \<Longrightarrow> 0 \<le> level s"
    and level_step: "inv s \<Longrightarrow>
      level (snd (step e s)) + of_bool (fst (step e s)) \<le> level s + gain e s"
begin

lemma run_inv: "inv s \<Longrightarrow> inv (snd (run_steps step es s))"
  by (induction es arbitrary: s) (auto simp: Let_def split_beta intro: inv_step)

lemma accepted_level:
  "inv s \<Longrightarrow> level (snd (run_steps step es s)) + of_nat (count_list (fst (run_steps step es s)) True)
     \<le> level s + total_gain step gain es s"
proof (induction es arbitrary: s)
  case (Cons e es)
  let ?s = "snd (step e s)"
  have "inv ?s" using Cons.prems by (rule inv_step)
  then have "level (snd (run_steps step es ?s)) + of_nat (count_list (fst (run_steps step es ?s)) True)
      \<le> level ?s + total_gain step gain es ?s" by (rule Cons.IH)
  with level_step [OF Cons.prems, of e] show ?case
    by (cases "fst (step e s)") (auto simp: Let_def split_beta)
qed simp

lemma accepted_bound:
  "inv s \<Longrightarrow> of_nat (count_list (fst (run_steps step es s)) True) \<le> level s + total_gain step gain es s"
  using accepted_level [of s es] level_nonneg [OF run_inv, of s es] by linarith

end

section \<open>The limiter's invariant\<close>

definition limiter_ok :: "RateLimiter \<Rightarrow> bool" where
  "limiter_ok rl \<longleftrightarrow> 1 \<le> rl_burst rl \<and> rl_burst rl \<le> 2 ^ 32 \<and> 0 \<le> rl_rate rl \<and>
     0 \<le> rl_tokens rl \<and> rl_tokens rl \<le> rl_burst rl"

definition refill :: "nat \<Rightarrow> RateLimiter \<Rightarrow> rat" where
  "refill now rl = f64_mul (as_secs_f64 (duration_since now (rl_last rl))) (rl_rate rl)"

definition limiter_gain :: "nat \<Rightarrow> RateLimiter \<Rightarrow> rat" where
  "limiter_gain now rl = refill now rl + 2 * f64_eps * rl_burst rl"

lemma unat_u32: "unat (x :: u32) < 2 ^ 32"
  using unsigned_less [of x, where 'a = nat] by simp

lemma u32_f64_nonneg [simp]: "0 \<le> u32_f64 x"
  unfolding u32_f64_def by (rule of_nat_0_le_iff)

lemma u32_f64_less: "u32_f64 x < 2 ^ 32"
  using unat_u32 [of x] of_nat_less_iff [of "unat x" "2 ^ 32", where 'a = rat]
  by (simp add: u32_f64_def)

lemma u32_f64_max_1: "1 \<le> u32_f64 (max x 1)"
proof -
  have "1 \<le> unat (max x 1)"
    using max.cobounded2 [of 1 x] by (simp add: word_le_nat_alt)
  then show ?thesis
    using of_nat_le_iff [of 1 "unat (max x 1)", where 'a = rat] by (simp add: u32_f64_def)
qed

lemma limiter_ok_new: "limiter_ok (RateLimiter_new rate burst now)"
  using u32_f64_less [of "max burst 1"] u32_f64_max_1 [of burst]
  by (simp add: limiter_ok_def RateLimiter_new_def Let_def)

lemma as_secs_f64_nonneg [simp]: "0 \<le> as_secs_f64 d"
  by (simp add: as_secs_f64_def f64_add_def f64_div_def f64.rnd_nonneg)

lemma refill_nonneg: "0 \<le> rl_rate rl \<Longrightarrow> 0 \<le> refill now rl"
  by (simp add: refill_def f64_mul_def f64.rnd_nonneg)

lemma allow_eq:
  "allow now rl =
    (let t = min (f64_round (rl_tokens rl + refill now rl)) (rl_burst rl) in
     (1 \<le> t, rl\<lparr>rl_last := now, rl_tokens := if 1 \<le> t then f64_round (t - 1) else t\<rparr>))"
  by (simp add: allow_def refill_def f64_add_def f64_sub_def Let_def)

lemma allow_frame [simp]:
  "rl_rate (snd (allow now rl)) = rl_rate rl" "rl_burst (snd (allow now rl)) = rl_burst rl"
  "rl_last (snd (allow now rl)) = now"
  by (simp_all add: allow_eq Let_def)

lemma eps_burst: "limiter_ok rl \<Longrightarrow> f64_eps * rl_burst rl \<le> 1"
proof -
  assume "limiter_ok rl"
  then have "f64_eps * rl_burst rl \<le> f64_eps * 2 ^ 32"
    using f64_eps_bounds by (intro mult_left_mono) (auto simp: limiter_ok_def)
  also have "\<dots> \<le> 1" by (simp add: f64_eps_def)
  finally show ?thesis .
qed

lemma allow_level:
  assumes "limiter_ok rl"
  shows "limiter_ok (snd (allow now rl)) \<and>
    rl_tokens (snd (allow now rl)) + of_bool (fst (allow now rl)) \<le> rl_tokens rl + limiter_gain now rl"
proof -
  define t where "t = min (f64_round (rl_tokens rl + refill now rl)) (rl_burst rl)"
  let ?e = "f64_eps * rl_burst rl"
  from assms have ok: "1 \<le> rl_burst rl" "0 \<le> rl_rate rl" "0 \<le> rl_tokens rl"
    by (auto simp: limiter_ok_def)
  have e: "0 \<le> ?e" "?e \<le> 1" using ok f64_eps_bounds eps_burst [OF assms] by auto
  have s: "0 \<le> rl_tokens rl + refill now rl" using ok refill_nonneg by simp
  then have t: "0 \<le> t" "t \<le> rl_burst rl" using ok f64.rnd_nonneg by (auto simp: t_def)
  have up: "t \<le> rl_tokens rl + refill now rl + ?e"
    unfolding t_def using s ok by (intro f64.min_rnd_le) auto
  have a: "allow now rl = (1 \<le> t, rl\<lparr>rl_last := now, rl_tokens := if 1 \<le> t then f64_round (t - 1) else t\<rparr>)"
    by (simp add: allow_eq t_def Let_def)
  show ?thesis
  proof (cases "1 \<le> t")
    case True
    have "0 \<le> f64_round (t - 1)" "f64_round (t - 1) \<le> (t - 1) + ?e"
      using True t by (auto intro: f64.rnd_nonneg f64.rnd_upper_cap)
    moreover from this have "f64_round (t - 1) \<le> rl_burst rl" using e t by linarith
    ultimately show ?thesis
      using True assms a up by (simp add: limiter_ok_def limiter_gain_def)
  next
    case False
    with assms t up e a show ?thesis by (simp add: limiter_ok_def limiter_gain_def)
  qed
qed

interpretation bucket: bounded_limiter allow limiter_ok rl_tokens limiter_gain
proof unfold_locales
  show "0 \<le> rl_tokens s" if "limiter_ok s" for s using that by (simp add: limiter_ok_def)
qed (simp_all add: allow_level)

section \<open>Bounds on the refill\<close>

definition grow :: "nat \<Rightarrow> rat" where
  "grow k = (1 + f64_eps) ^ k"

lemma grow_ge_1: "1 \<le> grow k"
  using f64_eps_bounds by (simp add: grow_def one_le_power)

lemma rnd_grow: "0 \<le> x \<Longrightarrow> x \<le> y * grow k \<Longrightarrow> f64_round x \<le> y * grow (Suc k)"
proof -
  assume x: "0 \<le> x" "x \<le> y * grow k"
  have "f64_round x \<le> x * (1 + f64_eps)" using f64.rnd_upper [OF x(1)] by (simp add: algebra_simps)
  also have "\<dots> \<le> y * grow k * (1 + f64_eps)"
    using x f64_eps_bounds by (intro mult_right_mono) auto
  finally show ?thesis by (simp add: grow_def algebra_simps)
qed

definition secs :: "nat \<Rightarrow> rat" where
  "secs d = of_nat d / 1000000000"

lemma secs_split: "secs d = of_nat (d div 1000000000) + of_nat (d mod 1000000000) / 1000000000"
proof -
  have "(of_nat d :: rat) = of_nat (d div 1000000000 * 1000000000 + d mod 1000000000)" by simp
  then show ?thesis unfolding secs_def of_nat_add of_nat_mult by (simp add: add_divide_distrib)
qed

lemma as_secs_upper: "as_secs_f64 d \<le> secs d * grow 3"
proof -
  let ?s = "of_nat (d div 1000000000) :: rat" and ?n = "of_nat (d mod 1000000000) :: rat"
  let ?q = "f64_div (f64_round ?n) 1000000000"
  have "f64_round ?s \<le> ?s * grow 1" "f64_round ?n \<le> ?n * grow 1"
    using rnd_grow [of ?s ?s 0] rnd_grow [of ?n ?n 0] by (simp_all add: grow_def)
  then have n: "?q \<le> (?n / 1000000000) * grow 2"
    using rnd_grow [of "f64_round ?n / 1000000000" "?n / 1000000000" 1]
    by (simp add: f64_div_def f64.rnd_nonneg numeral_2_eq_2)
  have "?s * grow 1 \<le> ?s * grow 2"
    using f64_eps_bounds power_increasing [of 1 2 "1 + f64_eps"]
    by (intro mult_left_mono) (auto simp: grow_def)
  with n \<open>f64_round ?s \<le> ?s * grow 1\<close> have "f64_round ?s + ?q \<le> secs d * grow 2"
    unfolding secs_split by (simp add: distrib_right)
  moreover have "0 \<le> f64_round ?s + ?q" by (simp add: f64_div_def f64.rnd_nonneg)
  ultimately show ?thesis
    using rnd_grow [of "f64_round ?s + ?q" "secs d" 2]
    by (simp add: as_secs_f64_def f64_add_def numeral_3_eq_3 numeral_2_eq_2)
qed

lemma as_secs_lower: "1000000000 \<le> d \<Longrightarrow> 1 \<le> as_secs_f64 d"
proof -
  assume "1000000000 \<le> d"
  then have "1 \<le> d div 1000000000" by (simp add: Suc_le_eq div_greater_zero_iff)
  then have "(1::rat) \<le> of_nat (d div 1000000000)"
    using of_nat_le_iff [of 1 "d div 1000000000", where 'a = rat] by simp
  then have "1 \<le> f64_round (of_nat (d div 1000000000))" by (rule f64.rnd_ge_1)
  moreover have "0 \<le> f64_div (f64_round (of_nat (d mod 1000000000))) 1000000000"
    by (simp add: f64_div_def f64.rnd_nonneg)
  ultimately show ?thesis unfolding as_secs_f64_def f64_add_def
    by (intro f64.rnd_ge_1) linarith
qed

lemma refill_upper: "0 \<le> rl_rate rl \<Longrightarrow> refill now rl \<le> rl_rate rl * secs (now - rl_last rl) * grow 4"
proof -
  assume r: "0 \<le> rl_rate rl"
  let ?e = "as_secs_f64 (now - rl_last rl)"
  have "?e * rl_rate rl \<le> secs (now - rl_last rl) * grow 3 * rl_rate rl"
    using r as_secs_upper by (intro mult_right_mono)
  then show ?thesis
    using r rnd_grow [of "?e * rl_rate rl" "rl_rate rl * secs (now - rl_last rl)" 3]
    by (simp add: refill_def f64_mul_def duration_since_def ac_simps)
qed

lemma total_gain_upper:
  assumes "limiter_ok rl" and "sorted (rl_last rl # ts)"
  shows "total_gain allow limiter_gain ts rl
    \<le> rl_rate rl * secs (last (rl_last rl # ts) - rl_last rl) * grow 4
      + of_nat (length ts) * (2 * f64_eps * rl_burst rl)"
  using assms
proof (induction ts arbitrary: rl)
  case Nil
  then show ?case by (simp add: secs_def)
next
  case (Cons t ts)
  let ?rl = "snd (allow t rl)" and ?c = "2 * f64_eps * rl_burst rl"
  let ?z = "last (t # ts)"
  have IH: "total_gain allow limiter_gain ts ?rl
    \<le> rl_rate rl * secs (?z - t) * grow 4 + of_nat (length ts) * ?c"
    using Cons.IH [of ?rl] Cons.prems bucket.inv_step by simp
  have r: "0 \<le> rl_rate rl" using Cons.prems by (simp add: limiter_ok_def)
  have "t \<le> ?z" "rl_last rl \<le> t" using Cons.prems by (auto simp: last_ConsR)
  then have "secs (?z - rl_last rl) = secs (t - rl_last rl) + secs (?z - t)"
    by (simp add: secs_def of_nat_diff flip: add_divide_distrib)
  then have "rl_rate rl * secs (?z - rl_last rl) * grow 4
      = rl_rate rl * secs (t - rl_last rl) * grow 4 + rl_rate rl * secs (?z - t) * grow 4"
    by (simp add: algebra_simps)
  moreover have "total_gain allow limiter_gain (t # ts) rl
      = refill t rl + ?c + total_gain allow limiter_gain ts ?rl"
    by (simp add: limiter_gain_def)
  moreover have "of_nat (length (t # ts)) * ?c = ?c + of_nat (length ts) * ?c"
    by (simp add: algebra_simps)
  ultimately show ?case
    using IH refill_upper [OF r, of t] last_ConsR [of "t # ts" "rl_last rl"] by simp
qed

lemma run_allow_frame [simp]:
  "rl_rate (snd (run_steps allow ts rl)) = rl_rate rl"
  "rl_burst (snd (run_steps allow ts rl)) = rl_burst rl"
  "rl_last (snd (run_steps allow ts rl)) = last (rl_last rl # ts)"
  by (induction ts arbitrary: rl) (simp_all add: Let_def split_beta)

lemma window_bound:
  assumes "limiter_ok rl" and "sorted (rl_last rl # ts)"
  shows "of_nat (count_list (fst (run_steps allow ts rl)) True)
    \<le> rl_burst rl + rl_rate rl * secs (last (rl_last rl # ts) - rl_last rl) * grow 4
      + of_nat (length ts) * (2 * f64_eps * rl_burst rl)"
  using bucket.accepted_bound [OF assms(1), of ts] total_gain_upper [OF assms] assms(1)
  by (simp add: limiter_ok_def)

section \<open>Bursts and liveness\<close>

lemma allow_no_refill:
  assumes "refill now rl = 0" and "rl_tokens rl = of_nat n" and "rl_burst rl \<le> 2 ^ 32"
    and "of_nat n \<le> rl_burst rl"
  shows "allow now rl = (0 < n, rl\<lparr>rl_last := now, rl_tokens := of_nat (n - 1)\<rparr>)"
proof -
  from assms have "(of_nat n :: rat) \<le> of_nat (2 ^ 32)" by simp
  then have n: "n \<le> 2 ^ 32" by (simp only: of_nat_le_iff)
  have int: "f64_round (of_nat m) = of_nat m" if "m \<le> 2 ^ 32" for m
    using f64_round_int [of "int m"] that by simp
  have "1 \<le> (of_nat n :: rat) \<longleftrightarrow> 0 < n"
    using of_nat_le_iff [of 1 n, where 'a = rat] by (simp add: Suc_le_eq)
  moreover have "f64_round ((of_nat n :: rat) - 1) = of_nat (n - 1)" if "0 < n"
    using int [of "n - 1"] n that by (simp add: of_nat_diff)
  ultimately show ?thesis
    using assms int [OF n] by (auto simp: allow_eq Let_def min_def)
qed

lemma refill_zero: "rl_rate rl = 0 \<or> now \<le> rl_last rl \<Longrightarrow> refill now rl = 0"
proof -
  have "as_secs_f64 0 = 0" by (simp add: as_secs_f64_def f64_add_def f64_div_def)
  moreover assume "rl_rate rl = 0 \<or> now \<le> rl_last rl"
  ultimately show ?thesis by (auto simp: refill_def f64_mul_def duration_since_def)
qed

lemma run_no_refill:
  assumes "rl_rate rl = 0 \<or> set ts \<subseteq> {rl_last rl}" and "rl_tokens rl = of_nat n"
    and "rl_burst rl \<le> 2 ^ 32" and "of_nat n \<le> rl_burst rl"
  shows "fst (run_steps allow ts rl) = replicate (min n (length ts)) True @ replicate (length ts - n) False"
  using assms
proof (induction ts arbitrary: rl n)
  case (Cons t ts)
  have a: "allow t rl = (0 < n, rl\<lparr>rl_last := t, rl_tokens := of_nat (n - 1)\<rparr>)"
    using Cons.prems by (intro allow_no_refill refill_zero) auto
  have "(of_nat (n - 1) :: rat) \<le> of_nat n" by (simp only: of_nat_le_iff)
  with Cons.prems have "fst (run_steps allow ts (snd (allow t rl))) =
      replicate (min (n - 1) (length ts)) True @ replicate (length ts - (n - 1)) False"
    by (intro Cons.IH) (auto simp: a)
  then show ?case by (cases n) (simp_all add: a Let_def split_beta)
qed simp

lemma burst_run:
  assumes "rate = 0 \<or> set ts \<subseteq> {t0}"
  shows "fst (run_steps allow ts (RateLimiter_new rate burst t0)) =
    replicate (min (unat (max burst 1)) (length ts)) True @
    replicate (length ts - unat (max burst 1)) False"
proof (rule run_no_refill)
  show "rl_rate (RateLimiter_new rate burst t0) = 0 \<or> set ts \<subseteq> {rl_last (RateLimiter_new rate burst t0)}"
    using assms by (auto simp: RateLimiter_new_def Let_def u32_f64_def)
qed (use u32_f64_less [of "max burst 1"] in \<open>simp_all add: RateLimiter_new_def Let_def u32_f64_def\<close>)

lemma allow_after_second:
  assumes "limiter_ok rl" and "1 \<le> rl_rate rl" and "rl_last rl + 1000000000 \<le> now"
  shows "fst (allow now rl)"
proof -
  have "1 * 1 \<le> as_secs_f64 (duration_since now (rl_last rl)) * rl_rate rl"
    using assms as_secs_lower by (intro mult_mono) (auto simp: duration_since_def)
  then have "1 \<le> refill now rl" unfolding refill_def f64_mul_def by (intro f64.rnd_ge_1) simp
  then have "1 \<le> f64_round (rl_tokens rl + refill now rl)"
    using assms(1) by (intro f64.rnd_ge_1) (simp add: limiter_ok_def)
  with assms(1) show ?thesis by (simp add: allow_eq Let_def limiter_ok_def)
qed

lemma u32_f64_ge_1: "0 < r \<Longrightarrow> 1 \<le> u32_f64 r"
proof -
  assume "0 < r"
  then have "1 \<le> r" by (simp add: word_le_nat_alt word_less_nat_alt Suc_le_eq)
  then have "max r 1 = r" by (rule max.absorb1)
  with u32_f64_max_1 [of r] show ?thesis by simp
qed

section \<open>Properties\<close>

text \<open>C27: in every window of a run of the limiter, at any rate and burst and with the rounding of
  \<open>f64\<close>, at most \<open>burst + rate * seconds\<close> packets are admitted, up to a relative error of
  about \<open>2^-51\<close> and \<open>burst * 2^-52\<close> for each packet offered.\<close>

theorem limiter_window_bound:
  assumes "sorted (t0 # before @ window)"
  shows "of_nat (count_list (fst (run_steps allow window
      (snd (run_steps allow before (RateLimiter_new rate burst t0))))) True)
    \<le> u32_f64 (max burst 1)
      + u32_f64 rate * (of_nat (last (t0 # before @ window) - last (t0 # before)) / 1000000000) * (1 + f64_eps) ^ 4
      + of_nat (length window) * (2 * f64_eps * u32_f64 (max burst 1))"
proof -
  let ?rl = "snd (run_steps allow before (RateLimiter_new rate burst t0))"
  have sel: "rl_burst ?rl = u32_f64 (max burst 1)" "rl_rate ?rl = u32_f64 rate" "rl_last ?rl = last (t0 # before)"
    by (simp_all add: RateLimiter_new_def Let_def)
  have "limiter_ok ?rl" by (intro bucket.run_inv limiter_ok_new)
  moreover have "sorted (rl_last ?rl # window)"
    unfolding sel using assms by (cases before rule: rev_cases) (auto simp: sorted_append)
  moreover have "last (rl_last ?rl # window) = last (t0 # before @ window)" unfolding sel by simp
  ultimately show ?thesis
    using window_bound [of ?rl window] unfolding sel secs_def grow_def by metis
qed

theorem limiter_window_bound_witness:
  "of_nat (count_list (fst (run_steps allow [7, 7] (RateLimiter_new 5 2 7))) True)
     \<le> 2 + 2 * (2 * f64_eps * 2)"
  using limiter_window_bound [of 7 "[]" "[7, 7]" 5 2] by (simp add: u32_f64_def)

text \<open>C28: when nothing is refilled (rate 0, or no time passes) exactly the first \<open>max burst 1\<close> packets
  are admitted and all others are refused: the token arithmetic is exact.\<close>

theorem burst_exact:
  assumes "rate = 0 \<or> set ts \<subseteq> {t0}"
  shows "fst (run_steps allow ts (RateLimiter_new rate burst t0)) =
    replicate (min (unat (max burst 1)) (length ts)) True @
    replicate (length ts - unat (max burst 1)) False"
  using assms by (rule burst_run)

theorem burst_exact_witness:
  "fst (run_steps allow [4, 4, 4] (RateLimiter_new 9 2 4)) = [True, True, False]"
proof -
  have "unat (max 2 1 :: u32) = Suc (Suc 0)" by simp
  with burst_exact [of 9 "[4, 4, 4]" 4 2] show ?thesis by (simp only: set_simps insert_absorb2) simp
qed

text \<open>C29: the limiter recovers: whatever happened before, a packet that comes a second or more after
  the last one is admitted, for every rate of at least one packet per second.\<close>

theorem limiter_recovers:
  assumes "0 < rate" and "last (t0 # ts) + 1000000000 \<le> now"
  shows "fst (allow now (snd (run_steps allow ts (RateLimiter_new rate burst t0))))"
proof (rule allow_after_second)
  show "limiter_ok (snd (run_steps allow ts (RateLimiter_new rate burst t0)))"
    by (intro bucket.run_inv limiter_ok_new)
qed (use assms u32_f64_ge_1 in \<open>simp_all add: RateLimiter_new_def Let_def\<close>)

theorem limiter_recovers_witness:
  "fst (allow 1000000007 (snd (run_steps allow [7, 7, 7] (RateLimiter_new 1 1 7))))"
  by (rule limiter_recovers) simp_all

end
