(* ===== verification/Bcr_Os.thy ===== *)
theory Bcr_Os
  imports Bcr_Std
begin

text \<open>
  The operating system as bcr sees it. Every system call and every line printed is an
  \<open>event\<close>, and an operation of the model returns the list of events it causes, in order. What
  a call returns is an input of the operation: the model says nothing about when a call fails.
  An \<open>errno\<close> is represented by the text it prints as.

  The constants are those of the \<open>libc\<close> crate for Linux.
\<close>

section \<open>Definitions\<close>

type_synonym errno = string

subsection \<open>Arguments of system calls\<close>

record sockaddr_ll =
  sll_family :: u16
  sll_protocol :: u16
  sll_ifindex :: u32
  sll_hatype :: u16
  sll_pkttype :: u8
  sll_halen :: u8
  sll_addr :: "u8 list"

record packet_mreq =
  mr_ifindex :: u32
  mr_type :: u16
  mr_alen :: u16
  mr_address :: "u8 list"

record sock_filter =
  sf_code :: u16
  sf_jt :: u8
  sf_jf :: u8
  sf_k :: u32

text \<open>
  An entry of \<open>getifaddrs\<close>: interface names repeat, one entry per address family and alias.
\<close>

datatype sockaddr = SockaddrIn ipv4addr u16 | SockaddrOther

record ifaddr =
  ifa_name :: string
  ifa_flags :: u32
  ifa_broadcast :: "sockaddr option"

definition IFF_UP :: u32 where
  "IFF_UP = 1"

text \<open>The arguments of \<open>socket\<close>, with the names of \<open>nix\<close>.\<close>

datatype address_family = AfInet | AfPacket

datatype sock_type = Stream | Datagram | Raw

datatype sock_flag = SOCK_NONBLOCK | SOCK_CLOEXEC

datatype sock_protocol = ProtoNone | EthAll

subsection \<open>Events\<close>

datatype event =
    Socket address_family sock_type "sock_flag list" sock_protocol
  | If_nametoindex string
  | Bind nat sockaddr_ll
  | Packet_add_membership nat packet_mreq
  | Attach_filter nat "sock_filter list"
  | Getifaddrs
  | Select "nat list" nat
  | Read nat nat
  | Sendto nat buf sockaddr_ll
  | Instant_now
  | Println string
  | Eprintln string
  | Geteuid
  | Read_file string
  | Getpwnam string
  | Setgroups "u32 list"
  | Setgid u32
  | Setuid u32
  | Seteuid u32

text \<open>Printing, and the use of the network.\<close>

fun is_print :: "event \<Rightarrow> bool" where
  "is_print (Println s) = True"
| "is_print (Eprintln s) = True"
| "is_print e = False"

fun is_traffic :: "event \<Rightarrow> bool" where
  "is_traffic (Select fds t) = True"
| "is_traffic (Read f n) = True"
| "is_traffic (Sendto f b a) = True"
| "is_traffic e = False"

fun is_sendto :: "event \<Rightarrow> bool" where
  "is_sendto (Sendto f b a) = True"
| "is_sendto e = False"

subsection \<open>Byte order\<close>

text \<open>\<open>u16::to_be\<close> on a little-endian target.\<close>

definition u16_to_be :: "u16 \<Rightarrow> u16" where
  "u16_to_be v = push_bit 8 (ucast (lo8 v)) OR ucast (hi8 v)"

subsection \<open>Operations with a trace\<close>

text \<open>
  An operation of the start-up code: the events it causes and its result. \<open>step_then\<close> is
  \<open>?\<close> on such an operation: the events of a failed operation remain, what follows it is not run.
\<close>

type_synonym 'a traced = "event list \<times> 'a result"

definition step_then :: "'a traced \<Rightarrow> ('a \<Rightarrow> 'b traced) \<Rightarrow> 'b traced" where
  "step_then m f =
     (case m of (es, Inl e) \<Rightarrow> (es, Inl e)
      | (es, Inr v) \<Rightarrow> (case f v of (es', r) \<Rightarrow> (es @ es', r)))"

text \<open>A single call of the operating system, with the context added to its error.\<close>

definition syscall :: "event \<Rightarrow> errno + 'a \<Rightarrow> 'a traced" where
  "syscall ev res = ([ev], case res of Inl e \<Rightarrow> Inl [e] | Inr v \<Rightarrow> Inr v)"

definition traced_context :: "string \<Rightarrow> 'a traced \<Rightarrow> 'a traced" where
  "traced_context c m = (fst m, with_context c (snd m))"

section \<open>Lemmas\<close>

lemma step_then_simps [simp, result_simps]:
  "step_then (es, Inl e) f = (es, Inl e)"
  "step_then (es, Inr v) f = (es @ fst (f v), snd (f v))"
  by (simp_all add: step_then_def split_beta)

lemma snd_step_then: "snd (step_then m f) = and_then (snd m) (\<lambda>v. snd (f v))"
  by (cases m; cases "snd m") auto

lemma fst_step_then:
  "fst (step_then m f) = fst m @ (case snd m of Inl e \<Rightarrow> [] | Inr v \<Rightarrow> fst (f v))"
  by (cases m; cases "snd m") auto

lemma step_then_Inr_iff:
  "step_then m f = (es, Inr v) \<longleftrightarrow>
   (\<exists>es1 w es2. m = (es1, Inr w) \<and> f w = (es2, Inr v) \<and> es = es1 @ es2)"
proof (cases m)
  case (Pair es1 r)
  then show ?thesis by (cases r) (auto simp: step_then_def split: prod.splits)
qed

lemma syscall_simps [simp, result_simps]:
  "syscall ev (Inl e) = ([ev], Inl [e])" "syscall ev (Inr v) = ([ev], Inr v)"
  by (simp_all add: syscall_def)

lemma traced_context_simps [simp, result_simps]:
  "traced_context c (es, Inl e) = (es, Inl (c # e))"
  "traced_context c (es, Inr v) = (es, Inr v)"
  by (simp_all add: traced_context_def)

lemma traced_context_Inr_iff: "traced_context c m = (es, Inr v) \<longleftrightarrow> m = (es, Inr v)"
  by (cases m; cases "snd m") auto

lemma is_sendto_iff: "is_sendto e \<longleftrightarrow> (\<exists>f b a. e = Sendto f b a)"
  by (cases e) auto

text \<open>The bytes that the kernel finds in memory are the network order.\<close>

lemma u16_to_be_bytes: "lo8 (u16_to_be v) = hi8 v \<and> hi8 (u16_to_be v) = lo8 v"
  by (auto simp: u16_to_be_def lo8_def hi8_def bit_eq_iff bit_simps dest: bit_imp_le_length)

end
