(* ===== verification/Bcr_Socket.thy ===== *)
theory Bcr_Socket
  imports Bcr_Os Bcr_Packet
begin

text \<open>
  \<open>src/src/socket.rs\<close>: the AF_PACKET socket of an interface, the classic BPF program attached
  to it, and the link-layer destination of an outgoing packet.

  The kernel's BPF machine is third-party code: its semantics is the locale \<open>bpf_machine\<close>,
  one law per instruction that the program uses, interpreted on \<open>bpf_exec\<close>. The results of the
  system calls made while a socket is set up are the fields of a \<open>socket_env\<close>.
\<close>

section \<open>Definitions\<close>

subsection \<open>The filter program\<close>

definition BPF_LD :: u16 where "BPF_LD = 0x00"
definition BPF_B :: u16 where "BPF_B = 0x10"
definition BPF_ABS :: u16 where "BPF_ABS = 0x20"
definition BPF_K :: u16 where "BPF_K = 0x00"
definition BPF_ALU :: u16 where "BPF_ALU = 0x04"
definition BPF_AND :: u16 where "BPF_AND = 0x50"
definition BPF_JMP :: u16 where "BPF_JMP = 0x05"
definition BPF_JEQ :: u16 where "BPF_JEQ = 0x10"
definition BPF_RET :: u16 where "BPF_RET = 0x06"

definition filter_insn :: "u16 \<Rightarrow> u8 \<Rightarrow> u8 \<Rightarrow> u32 \<Rightarrow> sock_filter" where
  "filter_insn code jt jf k = \<lparr>sf_code = code, sf_jt = jt, sf_jf = jf, sf_k = k\<rparr>"

definition packet_filter :: "sock_filter list" where
  "packet_filter = [
     filter_insn (BPF_LD OR BPF_B OR BPF_ABS) 0 0 0,
     filter_insn (BPF_ALU OR BPF_AND OR BPF_K) 0 0 0xf0,
     filter_insn (BPF_JMP OR BPF_JEQ OR BPF_K) 0 8 0x40,
     filter_insn (BPF_LD OR BPF_B OR BPF_ABS) 0 0 9,
     filter_insn (BPF_JMP OR BPF_JEQ OR BPF_K) 0 6 17,
     filter_insn (BPF_LD OR BPF_B OR BPF_ABS) 0 0 16,
     filter_insn (BPF_ALU OR BPF_AND OR BPF_K) 0 0 0xf0,
     filter_insn (BPF_JMP OR BPF_JEQ OR BPF_K) 2 0 0xe0,
     filter_insn (BPF_LD OR BPF_B OR BPF_ABS) 0 0 19,
     filter_insn (BPF_JMP OR BPF_JEQ OR BPF_K) 0 1 0xff,
     filter_insn (BPF_RET OR BPF_K) 0 0 262144,
     filter_insn (BPF_RET OR BPF_K) 0 0 0]"

definition attach_packet_filter :: "nat \<Rightarrow> errno + unit \<Rightarrow> unit traced" where
  "attach_packet_filter fd res =
     traced_context ''setsockopt(SO_ATTACH_FILTER) failed''
       (syscall (Attach_filter fd packet_filter) res)"

subsection \<open>The socket\<close>

text \<open>The interface index is an \<open>i32\<close> made of the \<open>u32\<close> of the kernel by \<open>as\<close>, which keeps the 32 bits.\<close>

record PacketSocket =
  ps_fd :: nat
  ps_ifindex :: u32
  ps_ifname :: string
  ps_broadcast_addrs :: "ipv4addr list"

record socket_env =
  se_socket :: "errno + nat"
  se_ifindex :: "errno + u32"
  se_bind :: "errno + unit"
  se_membership :: "errno + unit"
  se_filter :: "errno + unit"
  se_addrs :: "errno + ifaddr list"

definition AF_PACKET :: u16 where "AF_PACKET = 17"
definition ETH_P_ALL :: u16 where "ETH_P_ALL = 3"
definition ETH_P_IP :: u16 where "ETH_P_IP = 0x0800"
definition PACKET_MR_ALLMULTI :: u16 where "PACKET_MR_ALLMULTI = 2"

definition bind_address :: "u32 \<Rightarrow> sockaddr_ll" where
  "bind_address ifindex =
     \<lparr>sll_family = AF_PACKET, sll_protocol = u16_to_be ETH_P_ALL, sll_ifindex = ifindex,
      sll_hatype = 0, sll_pkttype = 0, sll_halen = 0, sll_addr = replicate 8 0\<rparr>"

definition allmulti_request :: "u32 \<Rightarrow> packet_mreq" where
  "allmulti_request ifindex =
     \<lparr>mr_ifindex = ifindex, mr_type = PACKET_MR_ALLMULTI, mr_alen = 0, mr_address = replicate 8 0\<rparr>"

fun as_sockaddr_in :: "sockaddr \<Rightarrow> ipv4addr option" where
  "as_sockaddr_in (SockaddrIn ip port) = Some ip"
| "as_sockaddr_in SockaddrOther = None"

fun collect_broadcasts :: "string \<Rightarrow> ipv4addr list \<Rightarrow> ifaddr list \<Rightarrow> ipv4addr list" where
  "collect_broadcasts ifname broadcast_addrs [] = broadcast_addrs"
| "collect_broadcasts ifname broadcast_addrs (a # addrs) =
     (if ifa_name a \<noteq> ifname then collect_broadcasts ifname broadcast_addrs addrs
      else case Option.bind (ifa_broadcast a) as_sockaddr_in of
        None \<Rightarrow> collect_broadcasts ifname broadcast_addrs addrs
      | Some bcast \<Rightarrow>
          if bcast \<in> set broadcast_addrs then collect_broadcasts ifname broadcast_addrs addrs
          else collect_broadcasts ifname (broadcast_addrs @ [bcast]) addrs)"

definition lookup_broadcasts :: "string \<Rightarrow> errno + ifaddr list \<Rightarrow> ipv4addr list" where
  "lookup_broadcasts ifname getifaddrs =
     (let found = (case getifaddrs of Inl e \<Rightarrow> []
                   | Inr addrs \<Rightarrow> collect_broadcasts ifname [] addrs)
      in if found = [] then [Ipv4Addr 255 255 255 255] else found)"

definition quoted :: "string \<Rightarrow> string" where
  "quoted s = CHR 0x27 # s @ [CHR 0x27]"

definition PacketSocket_new :: "socket_env \<Rightarrow> string \<Rightarrow> PacketSocket traced" where
  "PacketSocket_new env ifname =
     step_then (traced_context ''Failed to create AF_PACKET socket''
       (syscall (Socket AfPacket Datagram [SOCK_NONBLOCK] EthAll) (se_socket env))) (\<lambda>raw_fd.
     step_then (traced_context (''Failed to get index for interface '' @ quoted ifname)
       (syscall (If_nametoindex ifname) (se_ifindex env))) (\<lambda>ifindex.
     step_then (traced_context (''Failed to bind socket to interface '' @ quoted ifname)
       (syscall (Bind raw_fd (bind_address ifindex)) (se_bind env))) (\<lambda>_.
     step_then (traced_context
         (''Failed to enable all-multicast membership on interface '' @ quoted ifname)
       (syscall (Packet_add_membership raw_fd (allmulti_request ifindex)) (se_membership env))) (\<lambda>_.
     step_then (traced_context (''Failed to attach BPF filter on interface '' @ quoted ifname)
       (attach_packet_filter raw_fd (se_filter env))) (\<lambda>_.
     ([Getifaddrs],
      Inr \<lparr>ps_fd = raw_fd, ps_ifindex = ifindex, ps_ifname = ifname,
           ps_broadcast_addrs = lookup_broadcasts ifname (se_addrs env)\<rparr>))))))"

subsection \<open>Receiving and sending\<close>

definition dest_mac :: "buf \<Rightarrow> u8 list" where
  "dest_mac data =
     (if 20 \<le> length data \<and> 224 \<le> data ! 16 \<and> data ! 16 \<le> 239
      then [0x01, 0x00, 0x5e, data ! 17 AND 0x7f, data ! 18, data ! 19, 0, 0]
      else [0xff, 0xff, 0xff, 0xff, 0xff, 0xff, 0, 0])"

text \<open>
  \<open>read\<close> on a packet socket copies the waiting datagram, cut off at the size of the buffer,
  and returns the number of bytes copied; the rest of the buffer keeps its bytes.
\<close>

definition recv :: "PacketSocket \<Rightarrow> buf \<Rightarrow> errno + buf \<Rightarrow> event \<times> buf \<times> (errno + nat)" where
  "recv self b datagram =
     (Read (ps_fd self) (length b),
      case datagram of Inl e \<Rightarrow> (b, Inl e)
      | Inr d \<Rightarrow> let n = min (length d) (length b) in (take n d @ drop n b, Inr n))"

definition send_address :: "PacketSocket \<Rightarrow> buf \<Rightarrow> sockaddr_ll" where
  "send_address self data =
     \<lparr>sll_family = AF_PACKET, sll_protocol = u16_to_be ETH_P_IP, sll_ifindex = ps_ifindex self,
      sll_hatype = 0, sll_pkttype = 0, sll_halen = 6, sll_addr = dest_mac data\<rparr>"

definition send :: "PacketSocket \<Rightarrow> buf \<Rightarrow> event" where
  "send self data = Sendto (ps_fd self) data (send_address self data)"

section \<open>The BPF machine\<close>

text \<open>
  The result is the number of bytes of the packet that the socket keeps, 0 to drop it. A load
  beyond the packet drops it.
\<close>

locale bpf_machine =
  fixes exec :: "sock_filter list \<Rightarrow> nat \<Rightarrow> u32 \<Rightarrow> buf \<Rightarrow> u32"
  assumes ld_abs_byte: "pc < length prog \<Longrightarrow> sf_code (prog ! pc) = 0x30 \<Longrightarrow>
      unat (sf_k (prog ! pc)) < 2 ^ 31 \<Longrightarrow>
      exec prog pc a pkt =
        (if unat (sf_k (prog ! pc)) < length pkt
         then exec prog (Suc pc) (ucast (pkt ! unat (sf_k (prog ! pc)))) pkt else 0)"
    and alu_and: "pc < length prog \<Longrightarrow> sf_code (prog ! pc) = 0x54 \<Longrightarrow>
      exec prog pc a pkt = exec prog (Suc pc) (a AND sf_k (prog ! pc)) pkt"
    and jeq: "pc < length prog \<Longrightarrow> sf_code (prog ! pc) = 0x15 \<Longrightarrow>
      exec prog pc a pkt =
        exec prog (Suc pc + unat (if a = sf_k (prog ! pc) then sf_jt (prog ! pc)
                                  else sf_jf (prog ! pc))) a pkt"
    and ret_k: "pc < length prog \<Longrightarrow> sf_code (prog ! pc) = 0x06 \<Longrightarrow>
      exec prog pc a pkt = sf_k (prog ! pc)"

function bpf_exec :: "sock_filter list \<Rightarrow> nat \<Rightarrow> u32 \<Rightarrow> buf \<Rightarrow> u32" where
  "bpf_exec prog pc a pkt =
     (if pc < length prog then
        let i = prog ! pc in
        if sf_code i = 0x30 then
          if unat (sf_k i) < length pkt then bpf_exec prog (Suc pc) (ucast (pkt ! unat (sf_k i))) pkt
          else 0
        else if sf_code i = 0x54 then bpf_exec prog (Suc pc) (a AND sf_k i) pkt
        else if sf_code i = 0x15 then
          bpf_exec prog (Suc pc + unat (if a = sf_k i then sf_jt i else sf_jf i)) a pkt
        else if sf_code i = 0x06 then sf_k i
        else 0
      else 0)"
  by pat_completeness auto
termination by (relation "measure (\<lambda>(prog, pc, a, pkt). length prog - pc)") auto

declare bpf_exec.simps [simp del]

interpretation kernel_bpf: bpf_machine bpf_exec
  by unfold_locales (subst bpf_exec.simps, simp add: Let_def)+

section \<open>What the filter accepts\<close>

definition filter_accepts :: "buf \<Rightarrow> bool" where
  "filter_accepts b \<longleftrightarrow>
     16 < length b \<and> b ! 0 AND 0xF0 = 0x40 \<and> b ! 9 = 17 \<and>
     (b ! 16 AND 0xF0 = 0xE0 \<or> 19 < length b \<and> b ! 19 = 0xFF)"

lemma packet_filter_nth:
  "length packet_filter = 12"
  "packet_filter ! 0 = filter_insn 0x30 0 0 0"
  "packet_filter ! Suc 0 = filter_insn 0x54 0 0 0xf0"
  "packet_filter ! 2 = filter_insn 0x15 0 8 0x40"
  "packet_filter ! 3 = filter_insn 0x30 0 0 9"
  "packet_filter ! 4 = filter_insn 0x15 0 6 17"
  "packet_filter ! 5 = filter_insn 0x30 0 0 16"
  "packet_filter ! 6 = filter_insn 0x54 0 0 0xf0"
  "packet_filter ! 7 = filter_insn 0x15 2 0 0xe0"
  "packet_filter ! 8 = filter_insn 0x30 0 0 19"
  "packet_filter ! 9 = filter_insn 0x15 0 1 0xff"
  "packet_filter ! 10 = filter_insn 0x06 0 0 262144"
  "packet_filter ! 11 = filter_insn 0x06 0 0 0"
  by (simp_all add: packet_filter_def BPF_LD_def BPF_B_def BPF_ABS_def BPF_K_def BPF_ALU_def
      BPF_AND_def BPF_JMP_def BPF_JEQ_def BPF_RET_def)

lemma filter_insn_sel [simp]:
  "sf_code (filter_insn c t f k) = c" "sf_jt (filter_insn c t f k) = t"
  "sf_jf (filter_insn c t f k) = f" "sf_k (filter_insn c t f k) = k"
  by (simp_all add: filter_insn_def)

lemma ucast_u8_eq_iff: "(ucast (x :: u8) :: u32) = ucast (y :: u8) \<longleftrightarrow> x = y"
proof
  assume "(ucast x :: u32) = ucast y"
  then have "unat (ucast x :: u32) = unat (ucast y :: u32)" by simp
  then show "x = y"
    using unat_u8 [of x] unat_u8 [of y]
    by (simp add: unsigned_ucast_eq take_bit_eq_mod word_unat_eq_iff)
qed simp

lemma filter_tests:
  "(ucast (x :: u8) :: u32) AND 0xF0 = 0x40 \<longleftrightarrow> x AND 0xF0 = 0x40"
  "(ucast x :: u32) AND 0xF0 = 0xE0 \<longleftrightarrow> x AND 0xF0 = 0xE0"
  "(ucast x :: u32) = 17 \<longleftrightarrow> x = 17" "(ucast x :: u32) = 0xFF \<longleftrightarrow> x = 0xFF"
proof -
  have a: "(ucast x :: u32) AND 0xF0 = ucast (x AND 0xF0)" by (simp add: unsigned_and_eq)
  show "(ucast (x :: u8) :: u32) AND 0xF0 = 0x40 \<longleftrightarrow> x AND 0xF0 = 0x40"
    "(ucast x :: u32) AND 0xF0 = 0xE0 \<longleftrightarrow> x AND 0xF0 = 0xE0"
    "(ucast x :: u32) = 17 \<longleftrightarrow> x = 17" "(ucast x :: u32) = 0xFF \<longleftrightarrow> x = 0xFF"
    unfolding a using ucast_u8_eq_iff [of "x AND 0xF0" "0x40"] ucast_u8_eq_iff [of "x AND 0xF0" "0xE0"]
      ucast_u8_eq_iff [of x 17] ucast_u8_eq_iff [of x "0xFF"] by simp_all
qed

context bpf_machine
begin

text \<open>The two ends of the program, then one test after the other from the last.\<close>

lemma filter_accept: "exec packet_filter 10 a b = 262144"
  using ret_k [of 10 packet_filter a b] by (simp add: packet_filter_nth)

lemma filter_reject: "exec packet_filter 11 a b = 0"
  using ret_k [of 11 packet_filter a b] by (simp add: packet_filter_nth)

lemma filter_9: "exec packet_filter 9 a b = (if a = 0xFF then 262144 else 0)"
  using jeq [of 9 packet_filter a b] by (simp add: packet_filter_nth filter_accept filter_reject)

lemma filter_8: "exec packet_filter 8 a b = (if 19 < length b \<and> b ! 19 = 0xFF then 262144 else 0)"
  using ld_abs_byte [of 8 packet_filter a b] by (simp add: packet_filter_nth filter_tests filter_9)

lemma filter_7: "exec packet_filter 7 a b =
    (if a = 0xE0 \<or> 19 < length b \<and> b ! 19 = 0xFF then 262144 else 0)"
  using jeq [of 7 packet_filter a b] by (simp add: packet_filter_nth filter_accept filter_8)

lemma filter_5: "exec packet_filter 5 a b =
    (if 16 < length b \<and> (b ! 16 AND 0xF0 = 0xE0 \<or> 19 < length b \<and> b ! 19 = 0xFF)
     then 262144 else 0)"
  using ld_abs_byte [of 5 packet_filter a b] alu_and [of 6 packet_filter "ucast (b ! 16)" b]
  by (simp add: packet_filter_nth filter_tests filter_7)

lemma filter_4: "exec packet_filter 4 a b = (if a = 17 then exec packet_filter 5 17 b else 0)"
  using jeq [of 4 packet_filter a b] by (simp add: packet_filter_nth filter_reject)

lemma filter_3: "exec packet_filter 3 a b =
    (if 16 < length b \<and> b ! 9 = 17 \<and> (b ! 16 AND 0xF0 = 0xE0 \<or> 19 < length b \<and> b ! 19 = 0xFF)
     then 262144 else 0)"
  using ld_abs_byte [of 3 packet_filter a b]
  by (auto simp: packet_filter_nth filter_tests filter_4 filter_5)

lemma filter_2: "exec packet_filter 2 a b = (if a = 0x40 then exec packet_filter 3 0x40 b else 0)"
  using jeq [of 2 packet_filter a b] by (simp add: packet_filter_nth filter_reject)

lemma filter_verdict: "exec packet_filter 0 0 b = (if filter_accepts b then 262144 else 0)"
  using ld_abs_byte [of 0 packet_filter 0 b] alu_and [of 1 packet_filter "ucast (b ! 0)" b]
  by (auto simp: packet_filter_nth filter_tests filter_2 filter_3 filter_accepts_def
      numeral_2_eq_2 [symmetric])

end

text \<open>No packet that the relay would accept is dropped, or cut, by the kernel filter.\<close>

lemma relayable_filter_accepts:
  assumes "relayable b"
  shows "filter_accepts b"
proof -
  from assms have len: "20 \<le> length b" and v: "drop_bit 4 (b ! 0) = 4" and p: "b ! 9 = 17"
    and d: "is_broadcast (be_ip b 16)"
    by (auto simp: relayable_def header_ok_def)
  have "b ! 0 AND 0xF0 = 0x40"
    using v unat_drop_4 [of "b ! 0"] by (simp add: and_F0_eq_iff)
  moreover have "b ! 19 = 0xFF \<or> b ! 16 AND 0xF0 = 0xE0"
    using d unfolding is_broadcast_iff be_ip_def is_multicast_nibble by simp
  ultimately show ?thesis using len p by (auto simp: filter_accepts_def)
qed

section \<open>Socket lemmas\<close>

lemma collect_broadcasts_spec:
  "distinct acc \<Longrightarrow> distinct (collect_broadcasts n acc addrs) \<and>
   set (collect_broadcasts n acc addrs) = set acc \<union>
     {ip. \<exists>a\<in>set addrs. ifa_name a = n \<and> (\<exists>port. ifa_broadcast a = Some (SockaddrIn ip port))}"
proof (induction addrs arbitrary: acc)
  case (Cons a addrs)
  let ?o = "Option.bind (ifa_broadcast a) as_sockaddr_in"
  have o: "?o = Some ip \<longleftrightarrow> (\<exists>port. ifa_broadcast a = Some (SockaddrIn ip port))" for ip
    by (cases "ifa_broadcast a"; cases "the (ifa_broadcast a)") auto
  show ?case
  proof (cases ?o)
    case None
    with o have "\<not> (\<exists>port. ifa_broadcast a = Some (SockaddrIn ip port))" for ip by simp
    with None Cons show ?thesis by auto
  next
    case (Some b)
    with o have "(\<exists>port. ifa_broadcast a = Some (SockaddrIn ip port)) \<longleftrightarrow> ip = b" for ip by auto
    with Some Cons.IH [of acc] Cons.IH [of "acc @ [b]"] Cons.prems show ?thesis by auto
  qed
qed simp

lemma lookup_broadcasts_distinct: "distinct (lookup_broadcasts n g)"
  by (auto simp: lookup_broadcasts_def Let_def collect_broadcasts_spec split: sum.splits)

lemma lookup_broadcasts_nonempty: "lookup_broadcasts n g \<noteq> []"
  by (simp add: lookup_broadcasts_def Let_def)

text \<open>The IPv4 broadcast addresses of an interface: one for each subnet or alias.\<close>

definition iface_broadcasts :: "string \<Rightarrow> ifaddr list \<Rightarrow> ipv4addr set" where
  "iface_broadcasts n addrs =
     {ip. \<exists>a\<in>set addrs. ifa_name a = n \<and> (\<exists>port. ifa_broadcast a = Some (SockaddrIn ip port))}"

lemma lookup_broadcasts_mem:
  "set (lookup_broadcasts n (Inr addrs)) =
     (if iface_broadcasts n addrs = {} then {limited_broadcast} else iface_broadcasts n addrs)"
proof -
  have "set (collect_broadcasts n [] addrs) = iface_broadcasts n addrs"
    using collect_broadcasts_spec [of "[]" n addrs] by (simp add: iface_broadcasts_def)
  then show ?thesis
    by (simp add: lookup_broadcasts_def limited_broadcast_def Let_def flip: set_empty)
qed

lemma PacketSocket_new_Inr_iff:
  "PacketSocket_new env n = (es, Inr s) \<longleftrightarrow>
   (\<exists>f i. se_socket env = Inr f \<and> se_ifindex env = Inr i \<and> se_bind env = Inr () \<and>
      se_membership env = Inr () \<and> se_filter env = Inr () \<and>
      s = \<lparr>ps_fd = f, ps_ifindex = i, ps_ifname = n,
           ps_broadcast_addrs = lookup_broadcasts n (se_addrs env)\<rparr> \<and>
      es = [Socket AfPacket Datagram [SOCK_NONBLOCK] EthAll, If_nametoindex n, Bind f (bind_address i),
            Packet_add_membership f (allmulti_request i), Attach_filter f packet_filter, Getifaddrs])"
  by (cases "se_socket env"; cases "se_ifindex env"; cases "se_bind env";
      cases "se_membership env"; cases "se_filter env")
    (auto simp: PacketSocket_new_def attach_packet_filter_def)

lemma PacketSocket_new_no_traffic:
  "e \<in> set (fst (PacketSocket_new env n)) \<Longrightarrow> \<not> is_traffic e \<and> \<not> is_print e"
  by (cases "se_socket env"; cases "se_ifindex env"; cases "se_bind env";
      cases "se_membership env"; cases "se_filter env")
    (auto simp: PacketSocket_new_def attach_packet_filter_def)

text \<open>The destination MAC: a multicast group maps by RFC 1112, anything else is a broadcast.\<close>

lemma dest_mac_eq:
  "20 \<le> length b \<Longrightarrow> dest_mac b =
     (if is_multicast (be_ip b 16)
      then [0x01, 0x00, 0x5e, b ! 17 AND 0x7f, b ! 18, b ! 19, 0, 0]
      else [0xff, 0xff, 0xff, 0xff, 0xff, 0xff, 0, 0])"
  by (simp add: dest_mac_def be_ip_def is_multicast_def)

lemma length_dest_mac [simp]: "length (dest_mac b) = 8"
  by (simp add: dest_mac_def)

lemma recv_simps [simp]:
  "recv s b (Inl e) = (Read (ps_fd s) (length b), b, Inl e)"
  "recv s b (Inr d) = (Read (ps_fd s) (length b),
     take (min (length d) (length b)) d @ drop (min (length d) (length b)) b,
     Inr (min (length d) (length b)))"
  by (simp_all add: recv_def Let_def)

section \<open>Properties\<close>

text \<open>C19: the kernel filter keeps a packet whole if it is IPv4, UDP, and its destination is multicast
  or ends in 255, and drops it otherwise.\<close>

theorem filter_program_verdict:
  assumes "bpf_machine exec"
  shows "exec packet_filter 0 0 b =
    (if 16 < length b \<and> b ! 0 AND 0xF0 = 0x40 \<and> b ! 9 = 17 \<and>
        (b ! 16 AND 0xF0 = 0xE0 \<or> 19 < length b \<and> b ! 19 = 0xFF) then 262144 else 0)"
  using bpf_machine.filter_verdict [OF assms, of b] by (simp add: filter_accepts_def)

theorem filter_program_verdict_witness: "bpf_exec packet_filter 0 0 sample_packet = 262144"
  unfolding filter_program_verdict [OF kernel_bpf.bpf_machine_axioms] by code_simp

text \<open>C20: the kernel filter loses nothing that the relay could relay: a packet that the parser accepts
  is delivered, with at least its total length.\<close>

theorem kernel_filter_complete:
  assumes "bpf_machine exec" and "pnet_layout P" and "extract_packet_info P b = Ret (Some info)"
  shows "unat (be16 b 2) \<le> unat (exec packet_filter 0 0 b)"
proof -
  have "relayable b" using assms(3) by (simp add: pnet_layout.extract_Some_iff [OF assms(2)])
  then have "exec packet_filter 0 0 b = 262144"
    using bpf_machine.filter_verdict [OF assms(1), of b] relayable_filter_accepts by simp
  then show ?thesis using unat_u16 [of "be16 b 2"] by simp
qed

theorem kernel_filter_complete_witness:
  "unat (be16 sample_packet 2) \<le> unat (bpf_exec packet_filter 0 0 sample_packet)"
proof -
  have "extract_packet_info rfc_pnet sample_packet = Ret (Some (info_of sample_packet))"
    by (simp add: rfc.extract_Some_iff sample_relayable)
  then show ?thesis
    by (rule kernel_filter_complete [OF kernel_bpf.bpf_machine_axioms rfc.pnet_layout_axioms])
qed

definition sample_output :: PacketSocket where
  "sample_output = \<lparr>ps_fd = 4, ps_ifindex = 2, ps_ifname = ''eth1'',
     ps_broadcast_addrs = [Ipv4Addr 10 0 0 255]\<rparr>"

text \<open>C34: a packet leaves with the Ethernet multicast address of its group (\<open>01:00:5e\<close> and the low 23
  bits of the group) if its destination is multicast, and with the broadcast address otherwise.\<close>

theorem multicast_mac:
  assumes "20 \<le> length b" and "be_ip b 16 = Ipv4Addr g1 g2 g3 g4"
  shows "sll_addr (send_address s b) =
    (if is_multicast (Ipv4Addr g1 g2 g3 g4) then [0x01, 0x00, 0x5e, take_bit 7 g2, g3, g4, 0, 0]
     else [0xff, 0xff, 0xff, 0xff, 0xff, 0xff, 0, 0])"
proof -
  have "g2 AND 0x7f = take_bit 7 g2" by (simp add: take_bit_eq_mask mask_eq_exp_minus_1)
  then show ?thesis
    using dest_mac_eq [OF assms(1)] assms(2) by (auto simp: send_address_def be_ip_def)
qed

theorem multicast_mac_witness:
  "sll_addr (send_address sample_output (sample_packet[16 := 239, 19 := 250])) = [1, 0, 0x5e, 0x7f, 0xff, 0xfa, 0, 0]"
proof -
  have "20 \<le> length (sample_packet[16 := 239, 19 := 250])"
    "be_ip (sample_packet[16 := 239, 19 := 250]) 16 = Ipv4Addr 239 255 255 250"
    by code_simp+
  moreover have "is_multicast (Ipv4Addr 239 255 255 250)" "take_bit 7 (255 :: u8) = 0x7f" by code_simp+
  ultimately show ?thesis using multicast_mac [of "sample_packet[16 := 239, 19 := 250]"] by simp
qed

text \<open>C35: a socket that is created is a non-blocking packet socket for all protocols, bound to its interface, receives all multicast and has the
  kernel filter attached, in this order; it knows the distinct IPv4 broadcast addresses of its
  interface, or the limited broadcast address if there are none.\<close>

theorem socket_ready:
  assumes "PacketSocket_new env n = (es, Inr s)"
  shows "es = [Socket AfPacket Datagram [SOCK_NONBLOCK] EthAll, If_nametoindex n, Bind (ps_fd s) (bind_address (ps_ifindex s)),
      Packet_add_membership (ps_fd s) (allmulti_request (ps_ifindex s)),
      Attach_filter (ps_fd s) packet_filter, Getifaddrs] \<and>
    ps_ifname s = n \<and> ps_broadcast_addrs s \<noteq> [] \<and> distinct (ps_broadcast_addrs s) \<and>
    (\<forall>addrs. se_addrs env = Inr addrs \<longrightarrow> set (ps_broadcast_addrs s) =
      (if iface_broadcasts n addrs = {} then {limited_broadcast} else iface_broadcasts n addrs))"
proof -
  from assms have "ps_broadcast_addrs s = lookup_broadcasts n (se_addrs env)"
    by (auto simp: PacketSocket_new_Inr_iff)
  with assms show ?thesis
    using lookup_broadcasts_nonempty [of n "se_addrs env"] lookup_broadcasts_distinct [of n "se_addrs env"]
    by (auto simp only: PacketSocket_new_Inr_iff lookup_broadcasts_mem PacketSocket.select_convs)
qed

definition sample_socket_env :: socket_env where
  "sample_socket_env = \<lparr>se_socket = Inr 4, se_ifindex = Inr 2, se_bind = Inr (), se_membership = Inr (),
     se_filter = Inr (), se_addrs = Inr
       [\<lparr>ifa_name = ''eth1'', ifa_flags = 1, ifa_broadcast = Some (SockaddrIn (Ipv4Addr 10 0 0 255) 0)\<rparr>]\<rparr>"

lemma sample_socket_new: "\<exists>es. PacketSocket_new sample_socket_env ''eth1'' = (es, Inr sample_output)"
  by (simp add: PacketSocket_new_Inr_iff sample_socket_env_def sample_output_def lookup_broadcasts_def)

theorem socket_ready_witness:
  "\<exists>es. PacketSocket_new sample_socket_env ''eth1'' = (es, Inr sample_output) \<and>
     Attach_filter 4 packet_filter \<in> set es"
proof -
  obtain es where es: "PacketSocket_new sample_socket_env ''eth1'' = (es, Inr sample_output)"
    using sample_socket_new by blast
  from socket_ready [OF this] have "Attach_filter (ps_fd sample_output) packet_filter \<in> set es" by simp
  with es show ?thesis by (simp add: sample_output_def)
qed

end
