(* ===== verification/Bcr_Logging.thy ===== *)
theory Bcr_Logging
  imports Bcr_Config Bcr_Os
begin

text \<open>\<open>src/src/logging.rs\<close>: the two log lines of the relay, printed on standard output.\<close>

section \<open>Definitions\<close>

definition protocol_name :: "Protocol \<Rightarrow> string" where
  "protocol_name proto = (case proto of Udp \<Rightarrow> ''UDP'' | ProtoAny \<Rightarrow> ''ANY'')"

definition show_flow :: "PacketInfo \<Rightarrow> string" where
  "show_flow pkt =
     show_ipv4 (pkt_src_ip pkt) @ '':'' @ show_word (pkt_src_port pkt) @ '' -> '' @
     show_ipv4 (pkt_dst_ip pkt) @ '':'' @ show_word (pkt_dst_port pkt)"

definition log_relay :: "PacketInfo \<Rightarrow> nat \<Rightarrow> string \<Rightarrow> event" where
  "log_relay pkt len output_if = Println
     (''RELAY: '' @ show_flow pkt @ '' ('' @ protocol_name (pkt_protocol pkt) @ '', '' @
      show_nat len @ '' bytes) via '' @ output_if)"

definition log_filtered :: "string \<Rightarrow> PacketInfo \<Rightarrow> event" where
  "log_filtered reason pkt = Println
     (''FILTERED('' @ reason @ ''): '' @ show_flow pkt @ '' ('' @
      protocol_name (pkt_protocol pkt) @ '')'')"

section \<open>Lemmas\<close>

lemma is_print_log [simp]: "is_print (log_relay pkt n s)" "is_print (log_filtered r pkt)"
  by (simp_all add: log_relay_def log_filtered_def)

lemma not_traffic_log [simp]:
  "\<not> is_traffic (log_relay pkt n s)" "\<not> is_traffic (log_filtered r pkt)"
  "\<not> is_sendto (log_relay pkt n s)" "\<not> is_sendto (log_filtered r pkt)"
  by (simp_all add: log_relay_def log_filtered_def)

end
