(* ===== verification/Bcr_Relay.thy ===== *)
theory Bcr_Relay
  imports Bcr_Filter Bcr_Nat Bcr_Ratelimit Bcr_Socket Bcr_Logging
begin

text \<open>
  \<open>src/src/relay.rs\<close>: the relay loop. One pass of the loop is \<open>iteration\<close>; what the kernel
  returns during the pass is an \<open>IterEnv\<close> (the result of \<open>select\<close>, the datagram or error each
  input socket has, the clock when a socket is served, the result of each send). The state is
  the relay together with its two buffers. The loop of the code does not end by itself;
  \<open>run_loop\<close> is the loop over the passes given.

  \<open>requests\<close> and \<open>granted\<close> specify the sends of a run: the packets that match an allow rule,
  each with its copies, of which the limiter admits some. \<open>run_loop_implements\<close> shows
  that the loop with its buffers implements this; it panics only for an input descriptor that the set
  of \<open>select\<close> cannot hold (\<open>build_fd_set\<close>).
\<close>

section \<open>Definitions\<close>

subsection \<open>State and environment\<close>

record Relay =
  input_sockets :: "PacketSocket list"
  output_sockets :: "PacketSocket list"
  relay_filter :: Filter
  rate_limiter :: "RateLimiter option"
  verbose :: bool

record RunState =
  self :: Relay
  recv_buf :: buf
  send_buf :: buf

record IterEnv =
  ie_select :: "errno + nat \<times> nat list"
  ie_recv :: "nat \<Rightarrow> errno + buf"
  ie_now :: "nat \<Rightarrow> nat"
  ie_send :: "nat \<Rightarrow> nat \<Rightarrow> errno + nat"

subsection \<open>Where a packet goes\<close>

definition should_relay_to :: "ipv4addr \<Rightarrow> string \<Rightarrow> string \<Rightarrow> ipv4addr list \<Rightarrow> bool" where
  "should_relay_to dst ingress_if out_if out_broadcasts =
     (if ingress_if = out_if then False
      else is_multicast dst \<or> dst = Ipv4Addr 255 255 255 255 \<or> dst \<in> set out_broadcasts)"

definition nat_rewrite_target :: "ipv4addr \<Rightarrow> ipv4addr list \<Rightarrow> ipv4addr" where
  "nat_rewrite_target dst out_broadcasts =
     (if dst \<in> set out_broadcasts then dst
      else case out_broadcasts of b # _ \<Rightarrow> b | [] \<Rightarrow> Ipv4Addr 255 255 255 255)"

subsection \<open>The loop\<close>

text \<open>\<open>dst[..n].copy_from_slice(&src[..n])\<close>.\<close>

definition copy_prefix :: "nat \<Rightarrow> buf \<Rightarrow> buf \<Rightarrow> buf outcome" where
  "copy_prefix n src dst =
     seq (slice_to n dst) (\<lambda>_. seq (slice_to n src) (\<lambda>s. Ret (s @ drop n dst)))"

text \<open>An in-place operation on the first \<open>n\<close> bytes of a buffer.\<close>

definition on_prefix :: "nat \<Rightarrow> buf \<Rightarrow> (buf \<Rightarrow> (buf \<times> 'r) outcome) \<Rightarrow> (buf \<times> 'r) outcome" where
  "on_prefix n b f =
     seq (slice_to n b) (\<lambda>s. seq (f s) (\<lambda>(s', r). Ret (s' @ drop n b, r)))"

definition emit_if :: "bool \<Rightarrow> event \<Rightarrow> event list" where
  "emit_if c e = (if c then [e] else [])"

definition relay_one ::
  "pnet \<Rightarrow> bool \<Rightarrow> PacketInfo \<Rightarrow> NatOptions \<Rightarrow> nat \<Rightarrow> buf \<Rightarrow> errno + nat \<Rightarrow> PacketSocket \<Rightarrow> buf
     \<Rightarrow> (event list \<times> buf) outcome" where
  "relay_one P vb pkt_info no len rbuf sent out_sock sbuf =
     seq (copy_prefix len rbuf sbuf) (\<lambda>sbuf1.
     let dest_broadcast = nat_rewrite_target (pkt_dst_ip pkt_info) (ps_broadcast_addrs out_sock) in
     seq (on_prefix len sbuf1 (\<lambda>s. apply_nat P s no dest_broadcast)) (\<lambda>(sbuf2, r).
     case r of
       Inl e \<Rightarrow> Ret (emit_if vb (Eprintln (''NAT error: '' @ display_error e)), sbuf2)
     | Inr _ \<Rightarrow> seq (slice_to len sbuf2) (\<lambda>data.
         Ret (send out_sock data #
              (case sent of
                 Inr _ \<Rightarrow> emit_if vb (log_relay pkt_info len (ps_ifname out_sock))
               | Inl e \<Rightarrow> emit_if vb (Eprintln (''Send error on '' @ ps_ifname out_sock @ '': '' @ e))),
              sbuf2))))"

fun relay_outputs ::
  "pnet \<Rightarrow> bool \<Rightarrow> PacketInfo \<Rightarrow> NatOptions \<Rightarrow> string \<Rightarrow> nat \<Rightarrow> buf \<Rightarrow> (nat \<Rightarrow> errno + nat) \<Rightarrow> nat
     \<Rightarrow> PacketSocket list \<Rightarrow> buf \<Rightarrow> (event list \<times> buf) outcome" where
  "relay_outputs P vb pkt_info no ingress len rbuf sent k [] sbuf = Ret ([], sbuf)"
| "relay_outputs P vb pkt_info no ingress len rbuf sent k (out_sock # outs) sbuf =
     (if \<not> should_relay_to (pkt_dst_ip pkt_info) ingress (ps_ifname out_sock)
             (ps_broadcast_addrs out_sock)
      then relay_outputs P vb pkt_info no ingress len rbuf sent (Suc k) outs sbuf
      else seq (relay_one P vb pkt_info no len rbuf (sent k) out_sock sbuf) (\<lambda>(es, sbuf1).
           seq (relay_outputs P vb pkt_info no ingress len rbuf sent (Suc k) outs sbuf1)
             (\<lambda>(es', sbuf2). Ret (es @ es', sbuf2))))"

text \<open>The rate limit: the events, whether the packet passes, and the limiter afterwards.\<close>

definition check_rate ::
  "bool \<Rightarrow> PacketInfo \<Rightarrow> nat \<Rightarrow> RateLimiter option \<Rightarrow> event list \<times> bool \<times> RateLimiter option" where
  "check_rate vb pkt_info now limiter =
     (case limiter of
        None \<Rightarrow> ([], True, None)
      | Some rl \<Rightarrow> (case allow now rl of (ok, rl') \<Rightarrow>
          (Instant_now # (if ok then [] else emit_if vb (log_filtered ''rate limit'' pkt_info)),
           ok, Some rl')))"

definition handle_packet ::
  "pnet \<Rightarrow> IterEnv \<Rightarrow> nat \<Rightarrow> PacketSocket \<Rightarrow> nat \<Rightarrow> RunState \<Rightarrow> (event list \<times> RunState) outcome" where
  "handle_packet P env j in_sock len st =
     seq (slice_to len (recv_buf st)) (\<lambda>packet.
     seq (is_already_relayed P packet) (\<lambda>relayed.
     if relayed then Ret ([], st)
     else seq (extract_packet_info P packet) (\<lambda>extracted. case extracted of
       None \<Rightarrow> Ret ([], st)
     | Some pkt_info \<Rightarrow>
       let vb = verbose (self st) in
       if \<not> should_relay (relay_filter (self st)) pkt_info
       then Ret (emit_if vb (log_filtered ''no match'' pkt_info), st)
       else (case check_rate vb pkt_info (ie_now env j) (rate_limiter (self st)) of
         (es, ok, limiter) \<Rightarrow>
           let st1 = st\<lparr>self := (self st)\<lparr>rate_limiter := limiter\<rparr>\<rparr> in
           if \<not> ok then Ret (es, st1)
           else seq (unwrap (get_nat_rule (relay_filter (self st1)) pkt_info)) (\<lambda>nat_rule.
             seq (relay_outputs P vb pkt_info (rule_nat nat_rule) (ps_ifname in_sock) len
                    (recv_buf st1) (ie_send env j) 0 (output_sockets (self st1)) (send_buf st1))
               (\<lambda>(es', sbuf). Ret (es @ es', st1\<lparr>send_buf := sbuf\<rparr>)))))))"

definition handle_input ::
  "pnet \<Rightarrow> IterEnv \<Rightarrow> nat list \<Rightarrow> nat \<Rightarrow> PacketSocket \<Rightarrow> RunState
     \<Rightarrow> (event list \<times> RunState) outcome" where
  "handle_input P env ready j in_sock st =
     (if ps_fd in_sock \<notin> set ready then Ret ([], st)
      else case recv in_sock (recv_buf st) (ie_recv env j) of (ev, rbuf, res) \<Rightarrow>
        let st1 = st\<lparr>recv_buf := rbuf\<rparr> in
        case res of
          Inl e \<Rightarrow> Ret (ev # emit_if (verbose (self st))
                     (Eprintln (''Recv error on '' @ ps_ifname in_sock @ '': '' @ e)), st1)
        | Inr len \<Rightarrow> seq (handle_packet P env j in_sock len st1) (\<lambda>(es, st2). Ret (ev # es, st2)))"

fun handle_inputs ::
  "pnet \<Rightarrow> IterEnv \<Rightarrow> nat list \<Rightarrow> nat \<Rightarrow> PacketSocket list \<Rightarrow> RunState
     \<Rightarrow> (event list \<times> RunState) outcome" where
  "handle_inputs P env ready j [] st = Ret ([], st)"
| "handle_inputs P env ready j (in_sock # socks) st =
     seq (handle_input P env ready j in_sock st) (\<lambda>(es, st1).
     seq (handle_inputs P env ready (Suc j) socks st1) (\<lambda>(es', st2). Ret (es @ es', st2)))"

text \<open>
  The descriptors to wait for. \<open>FdSet::insert\<close> of \<open>nix\<close> panics for a descriptor that the bit set of
  \<open>select\<close> cannot hold.
\<close>

definition FD_SETSIZE :: nat where
  "FD_SETSIZE = 1024"

fun build_fd_set :: "PacketSocket list \<Rightarrow> nat list \<Rightarrow> nat list outcome" where
  "build_fd_set [] read_fds = Ret read_fds"
| "build_fd_set (sock # socks) read_fds =
     (if ps_fd sock < FD_SETSIZE then build_fd_set socks (read_fds @ [ps_fd sock]) else Panic)"

definition iteration ::
  "pnet \<Rightarrow> IterEnv \<Rightarrow> RunState \<Rightarrow> (event list \<times> RunState result) outcome" where
  "iteration P env st =
     seq (build_fd_set (input_sockets (self st)) []) (\<lambda>read_fds.
     let ev = Select read_fds 3 in
      case ie_select env of
        Inl e \<Rightarrow> Ret ([ev], Inl [e])
      | Inr (n, ready) \<Rightarrow>
          if n = 0 then Ret ([ev], Inr st)
          else seq (handle_inputs P env ready 0 (input_sockets (self st)) st)
            (\<lambda>(es, st'). Ret (ev # es, Inr st')))"

fun run_loop :: "pnet \<Rightarrow> IterEnv list \<Rightarrow> RunState \<Rightarrow> (event list \<times> RunState result) outcome" where
  "run_loop P [] st = Ret ([], Inr st)"
| "run_loop P (env # envs) st =
     seq (iteration P env st) (\<lambda>(es, r). case r of
       Inl e \<Rightarrow> Ret (es, Inl e)
     | Inr st1 \<Rightarrow> seq (run_loop P envs st1) (\<lambda>(es', r'). Ret (es @ es', r')))"

definition run_init :: "Relay \<Rightarrow> RunState" where
  "run_init relay = \<lparr>self = relay, recv_buf = replicate 65536 0, send_buf = replicate 65536 0\<rparr>"

definition run :: "pnet \<Rightarrow> IterEnv list \<Rightarrow> Relay \<Rightarrow> (event list \<times> RunState result) outcome" where
  "run P envs relay = run_loop P envs (run_init relay)"

section \<open>The specification\<close>

text \<open>The packet as the relay sees it, and the rule that lets it pass.\<close>

definition received :: "buf \<Rightarrow> buf" where
  "received d = take 65536 d"

definition passes :: "Filter \<Rightarrow> buf \<Rightarrow> Rule option" where
  "passes flt b = (if marked b \<or> \<not> relayable b then None else get_nat_rule flt (info_of b))"

definition copy_for :: "pnet \<Rightarrow> NatOptions \<Rightarrow> buf \<Rightarrow> PacketSocket \<Rightarrow> buf" where
  "copy_for P no b out =
     nat_bytes P no (nat_rewrite_target (be_ip b 16) (ps_broadcast_addrs out)) b"

definition targets :: "string \<Rightarrow> ipv4addr \<Rightarrow> PacketSocket list \<Rightarrow> PacketSocket list" where
  "targets ingress dst outs =
     filter (\<lambda>out. should_relay_to dst ingress (ps_ifname out) (ps_broadcast_addrs out)) outs"

definition copies ::
  "pnet \<Rightarrow> PacketSocket list \<Rightarrow> NatOptions \<Rightarrow> string \<Rightarrow> buf \<Rightarrow> event list" where
  "copies P outs no ingress b =
     map (\<lambda>out. send out (copy_for P no b out)) (targets ingress (be_ip b 16) outs)"

text \<open>
  A request is a clock reading and the copies that are sent if the limiter admits the packet.
\<close>

type_synonym request = "nat \<times> event list"

definition socket_requests ::
  "pnet \<Rightarrow> PacketSocket list \<Rightarrow> Filter \<Rightarrow> IterEnv \<Rightarrow> nat list \<Rightarrow> nat \<Rightarrow> PacketSocket \<Rightarrow> request list" where
  "socket_requests P outs flt env ready j in_sock =
     (if ps_fd in_sock \<notin> set ready then []
      else case ie_recv env j of Inl e \<Rightarrow> []
      | Inr d \<Rightarrow> (case passes flt (received d) of
          None \<Rightarrow> []
        | Some r \<Rightarrow> [(ie_now env j, copies P outs (rule_nat r) (ps_ifname in_sock) (received d))]))"

fun inputs_requests ::
  "pnet \<Rightarrow> PacketSocket list \<Rightarrow> Filter \<Rightarrow> IterEnv \<Rightarrow> nat list \<Rightarrow> nat \<Rightarrow> PacketSocket list
     \<Rightarrow> request list" where
  "inputs_requests P outs flt env ready j [] = []"
| "inputs_requests P outs flt env ready j (s # socks) =
     socket_requests P outs flt env ready j s @ inputs_requests P outs flt env ready (Suc j) socks"

fun requests :: "pnet \<Rightarrow> Relay \<Rightarrow> IterEnv list \<Rightarrow> request list" where
  "requests P relay [] = []"
| "requests P relay (env # envs) =
     (case ie_select env of
        Inl e \<Rightarrow> []
      | Inr (n, ready) \<Rightarrow>
          (if n = 0 then []
           else inputs_requests P (output_sockets relay) (relay_filter relay) env ready 0
                  (input_sockets relay)) @
          requests P relay envs)"

definition admit :: "RateLimiter option \<Rightarrow> nat list \<Rightarrow> bool list \<times> RateLimiter option" where
  "admit limiter ts =
     (case limiter of
        None \<Rightarrow> (replicate (length ts) True, None)
      | Some rl \<Rightarrow> (case run_steps allow ts rl of (oks, rl') \<Rightarrow> (oks, Some rl')))"

definition granted :: "bool list \<Rightarrow> request list \<Rightarrow> event list" where
  "granted oks rqs = concat (map (\<lambda>(ok, t, es). if ok then es else []) (zip oks rqs))"

definition sends :: "event list \<Rightarrow> event list" where
  "sends es = filter is_sendto es"

section \<open>Admission\<close>

lemma run_steps_append:
  "run_steps step (xs @ ys) s =
    (fst (run_steps step xs s) @ fst (run_steps step ys (snd (run_steps step xs s))),
     snd (run_steps step ys (snd (run_steps step xs s))))"
  by (induction xs arbitrary: s) (simp_all add: split_beta Let_def)

lemma length_run_steps [simp]: "length (fst (run_steps step xs s)) = length xs"
  by (induction xs arbitrary: s) (simp_all add: split_beta Let_def)

lemma length_admit [simp]: "length (fst (admit l ts)) = length ts"
  by (simp add: admit_def split_beta split: option.split)

lemma admit_Nil [simp]: "admit l [] = ([], l)"
  by (simp add: admit_def split: option.split)

lemma admit_append:
  "admit l (ts @ us) =
    (fst (admit l ts) @ fst (admit (snd (admit l ts)) us), snd (admit (snd (admit l ts)) us))"
  by (simp add: admit_def run_steps_append split_beta replicate_add split: option.split)

lemma granted_Nil [simp]: "granted oks [] = []"
  by (simp add: granted_def)

lemma granted_append:
  "length oks = length rqs \<Longrightarrow> granted (oks @ oks') (rqs @ rqs') = granted oks rqs @ granted oks' rqs'"
  by (simp add: granted_def)

lemma sends_simps [simp]:
  "sends [] = []" "sends (es @ es') = sends es @ sends es'"
  "sends (e # es) = (if is_sendto e then e # sends es else sends es)"
  by (simp_all add: sends_def)

lemma emit_if_simps [simp]: "emit_if False e = []" "emit_if True e = [e]"
  by (simp_all add: emit_if_def)

lemma sends_emit_if [simp]: "\<not> is_sendto e \<Longrightarrow> sends (emit_if c e) = []"
  by (cases c) simp_all

lemma is_sendto_send [simp]: "is_sendto (send out b)" "\<not> is_print (send out b)"
  by (simp_all add: send_def)

section \<open>Refinement\<close>

text \<open>
  What an operation does to the outside: a list of sends, and no printing unless the relay is
  verbose.
\<close>

definition does :: "bool \<Rightarrow> event list \<Rightarrow> event list \<Rightarrow> bool" where
  "does vb es spec \<longleftrightarrow> sends es = spec \<and> (\<not> vb \<longrightarrow> (\<forall>e\<in>set es. \<not> is_print e))"

lemma does_Nil [simp]: "does vb [] []"
  by (simp add: does_def)

lemma does_append: "does vb es sp \<Longrightarrow> does vb es' sp' \<Longrightarrow> does vb (es @ es') (sp @ sp')"
  by (auto simp: does_def)

lemma does_emit_if: "\<not> is_sendto e \<Longrightarrow> does vb (emit_if vb e) []"
  by (cases vb) (simp_all add: does_def)

lemma does_Cons: "\<not> is_sendto e \<Longrightarrow> \<not> is_print e \<Longrightarrow> does vb es sp \<Longrightarrow> does vb (e # es) sp"
  by (auto simp: does_def)

lemma does_send: "does vb es [] \<Longrightarrow> does vb (send out b # es) [send out b]"
  by (auto simp: does_def)

lemma copy_prefix_ok:
  "n \<le> length src \<Longrightarrow> n \<le> length dst \<Longrightarrow> copy_prefix n src dst = Ret (take n src @ drop n dst)"
  by (simp add: copy_prefix_def)

lemma on_prefix_copied:
  "n \<le> length src \<Longrightarrow> n \<le> length dst \<Longrightarrow>
   on_prefix n (take n src @ drop n dst) f =
     seq (f (take n src)) (\<lambda>(s', r). Ret (s' @ drop n dst, r))"
  by (simp add: on_prefix_def)

lemma dst_info_of [simp]: "pkt_dst_ip (info_of b) = be_ip b 16"
  by (simp add: info_of_def)

context pnet_layout
begin

lemma relay_one_eq:
  assumes "relayable (take len rbuf)" "len \<le> length rbuf" "len \<le> length sbuf"
  shows "relay_one P vb (info_of (take len rbuf)) no len rbuf sent out sbuf =
    Ret (send out (copy_for P no (take len rbuf) out) #
      (case sent of Inr _ \<Rightarrow> emit_if vb (log_relay (info_of (take len rbuf)) len (ps_ifname out))
       | Inl e \<Rightarrow> emit_if vb (Eprintln (''Send error on '' @ ps_ifname out @ '': '' @ e))),
      copy_for P no (take len rbuf) out @ drop len sbuf) \<and>
    length (copy_for P no (take len rbuf) out) = len"
proof -
  let ?b = "take len rbuf"
  let ?t = "nat_rewrite_target (be_ip ?b 16) (ps_broadcast_addrs out)"
  have ok: "nat_ok ?b" using assms(1) by (rule relayable_nat_ok)
  then have "apply_nat P ?b no ?t = Ret (nat_bytes P no ?t ?b, Inr ())"
    by (simp add: apply_nat_Ok_iff)
  moreover have "length (nat_bytes P no ?t ?b) = len"
    using ok assms by (simp add: nat_ok_def)
  ultimately show ?thesis
    using assms unfolding relay_one_def copy_for_def
    by (simp add: copy_prefix_ok on_prefix_copied Let_def)
qed

lemma relay_one_does:
  assumes "relayable (take len rbuf)" "len \<le> length rbuf" "len \<le> length sbuf"
  shows "\<exists>es sbuf'. relay_one P vb (info_of (take len rbuf)) no len rbuf sent out sbuf = Ret (es, sbuf') \<and>
    length sbuf' = length sbuf \<and> does vb es [send out (copy_for P no (take len rbuf) out)]"
  using relay_one_eq [OF assms, of vb no sent out] assms(3)
  by (auto intro!: does_send does_emit_if split: sum.split)

lemma relay_outputs_does:
  assumes "relayable (take len rbuf)" "len \<le> length rbuf" "len \<le> length sbuf"
  shows "\<exists>es sbuf'. relay_outputs P vb (info_of (take len rbuf)) no ingress len rbuf sent k outs sbuf
      = Ret (es, sbuf') \<and> length sbuf' = length sbuf \<and>
      does vb es (copies P outs no ingress (take len rbuf))"
  using assms(3)
proof (induction outs arbitrary: k sbuf)
  case Nil
  show ?case by (simp add: copies_def targets_def)
next
  case (Cons out outs)
  let ?b = "take len rbuf"
  show ?case
  proof (cases "should_relay_to (be_ip ?b 16) ingress (ps_ifname out) (ps_broadcast_addrs out)")
    case False
    with Cons show ?thesis by (simp add: copies_def targets_def)
  next
    case True
    obtain es1 sb1 where 1: "relay_one P vb (info_of ?b) no len rbuf (sent k) out sbuf = Ret (es1, sb1)"
        "length sb1 = length sbuf" "does vb es1 [send out (copy_for P no ?b out)]"
      using relay_one_does [OF assms(1,2) Cons.prems] by blast
    obtain es2 sb2 where 2: "relay_outputs P vb (info_of ?b) no ingress len rbuf sent (Suc k) outs sb1
        = Ret (es2, sb2)" "length sb2 = length sbuf" "does vb es2 (copies P outs no ingress ?b)"
      using Cons.IH [of sb1 "Suc k"] Cons.prems 1 by metis
    have "copies P (out # outs) no ingress ?b =
        [send out (copy_for P no ?b out)] @ copies P outs no ingress ?b"
      using True by (simp add: copies_def targets_def)
    then have "does vb (es1 @ es2) (copies P (out # outs) no ingress ?b)"
      using does_append [OF 1(3) 2(3)] by simp
    with True 1 2 show ?thesis by simp
  qed
qed

end

text \<open>The invariant of the buffers, and the step from one state to the next.\<close>

definition bufs_ok :: "RunState \<Rightarrow> bool" where
  "bufs_ok st \<longleftrightarrow> length (recv_buf st) = 65536 \<and> length (send_buf st) = 65536"

definition implements ::
  "RunState \<Rightarrow> request list \<Rightarrow> event list \<Rightarrow> RunState \<Rightarrow> bool" where
  "implements st rqs es st' \<longleftrightarrow>
     (let (oks, limiter) = admit (rate_limiter (self st)) (map fst rqs) in
      does (verbose (self st)) es (granted oks rqs) \<and>
      self st' = (self st)\<lparr>rate_limiter := limiter\<rparr> \<and> bufs_ok st')"

lemma implements_Nil: "bufs_ok st' \<Longrightarrow> self st' = self st \<Longrightarrow> does (verbose (self st)) es [] \<Longrightarrow>
    implements st [] es st'"
  by (simp add: implements_def)

lemma implements_append:
  assumes "implements st rqs es st1" "implements st1 rqs' es' st2"
  shows "implements st (rqs @ rqs') (es @ es') st2"
  using assms by (auto simp: implements_def split_beta admit_append granted_append Let_def
      intro: does_append)

lemma implements_Cons: "\<not> is_sendto e \<Longrightarrow> \<not> is_print e \<Longrightarrow> implements st rqs es st' \<Longrightarrow>
    implements st rqs (e # es) st'"
  by (auto simp: implements_def split_beta Let_def intro: does_Cons)

lemma admit_single:
  "check_rate vb info now l = (es, ok, l') \<Longrightarrow>
   admit l [now] = ([ok], l') \<and> does vb es []"
  by (auto simp: check_rate_def admit_def Let_def split: option.splits prod.splits if_splits
      intro!: does_Cons does_emit_if)

context pnet_layout
begin

lemma handle_packet_implements:
  assumes "bufs_ok st" "len \<le> 65536"
  shows "\<exists>es st'. handle_packet P env j in_sock len st = Ret (es, st') \<and>
    implements st
      (case passes (relay_filter (self st)) (take len (recv_buf st)) of None \<Rightarrow> []
       | Some r \<Rightarrow> [(ie_now env j, copies P (output_sockets (self st)) (rule_nat r) (ps_ifname in_sock)
                       (take len (recv_buf st)))])
      es st'"
proof -
  let ?b = "take len (recv_buf st)" and ?flt = "relay_filter (self st)"
  let ?vb = "verbose (self st)"
  have len: "len \<le> length (recv_buf st)" "len \<le> length (send_buf st)"
    using assms by (auto simp: bufs_ok_def)
  show ?thesis
  proof (cases "marked ?b \<or> \<not> relayable ?b")
    case True
    then show ?thesis
      using assms len by (auto simp: handle_packet_def is_already_relayed_eq extract_packet_info_eq
          passes_def intro: implements_Nil)
  next
    case False
    obtain es ok l where c: "check_rate ?vb (info_of ?b) (ie_now env j) (rate_limiter (self st)) = (es, ok, l)"
      by (cases "check_rate ?vb (info_of ?b) (ie_now env j) (rate_limiter (self st))")
    let ?st1 = "st\<lparr>self := (self st)\<lparr>rate_limiter := l\<rparr>\<rparr>"
    have new: "handle_packet P env j in_sock len st =
       (if \<not> should_relay ?flt (info_of ?b)
        then Ret (emit_if ?vb (log_filtered ''no match'' (info_of ?b)), st)
        else if \<not> ok then Ret (es, ?st1)
        else seq (unwrap (get_nat_rule ?flt (info_of ?b))) (\<lambda>r.
             seq (relay_outputs P ?vb (info_of ?b) (rule_nat r) (ps_ifname in_sock) len
                    (recv_buf st) (ie_send env j) 0 (output_sockets (self st)) (send_buf st))
               (\<lambda>(es', sbuf). Ret (es @ es', ?st1\<lparr>send_buf := sbuf\<rparr>))))"
      using len False by (simp add: handle_packet_def is_already_relayed_eq extract_packet_info_eq c Let_def)
    show ?thesis
    proof (cases "get_nat_rule ?flt (info_of ?b)")
      case None
      with False new assms show ?thesis
        by (auto simp: should_relay_iff_nat_rule passes_def intro!: implements_Nil does_emit_if)
    next
      case (Some r)
      obtain es' sb where o: "relay_outputs P ?vb (info_of ?b) (rule_nat r) (ps_ifname in_sock) len
          (recv_buf st) (ie_send env j) 0 (output_sockets (self st)) (send_buf st) = Ret (es', sb)"
        "length sb = length (send_buf st)"
        "does ?vb es' (copies P (output_sockets (self st)) (rule_nat r) (ps_ifname in_sock) ?b)"
        using relay_outputs_does False len by blast
      note a = admit_single [OF c]
      with Some False new assms c o show ?thesis
        by (auto simp: should_relay_iff_nat_rule passes_def implements_def granted_def bufs_ok_def Let_def
            dest: does_append [of ?vb es "[]" es'])
    qed
  qed
qed

lemma handle_input_implements:
  assumes "bufs_ok st"
  shows "\<exists>es st'. handle_input P env ready j in_sock st = Ret (es, st') \<and>
    implements st (socket_requests P (output_sockets (self st)) (relay_filter (self st)) env ready j in_sock)
      es st'"
proof (cases "ps_fd in_sock \<in> set ready")
  case False
  with assms show ?thesis
    by (auto simp: handle_input_def socket_requests_def intro: implements_Nil)
next
  case ready: True
  show ?thesis
  proof (cases "ie_recv env j")
    case (Inl e)
    with ready assms show ?thesis
      by (auto simp: handle_input_def socket_requests_def Let_def
          intro!: implements_Nil does_Cons does_emit_if)
  next
    case (Inr d)
    let ?n = "min (length d) 65536"
    let ?st = "st\<lparr>recv_buf := take ?n d @ drop ?n (recv_buf st)\<rparr>"
    have st: "bufs_ok ?st" using assms by (simp add: bufs_ok_def)
    have pkt: "take ?n (recv_buf ?st) = received d"
      by (simp add: received_def min_def)
    have self: "self ?st = self st" by simp
    obtain es st' where h: "handle_packet P env j in_sock ?n ?st = Ret (es, st')"
      and i: "implements ?st
        (case passes (relay_filter (self st)) (received d) of None \<Rightarrow> []
         | Some r \<Rightarrow> [(ie_now env j, copies P (output_sockets (self st)) (rule_nat r) (ps_ifname in_sock)
                         (received d))]) es st'"
      using handle_packet_implements [OF st, of ?n env j in_sock] unfolding pkt self by auto
    let ?ev = "Read (ps_fd in_sock) (length (recv_buf st))"
    have "handle_input P env ready j in_sock st = Ret (?ev # es, st')"
      using ready Inr h assms by (simp add: handle_input_def bufs_ok_def Let_def)
    moreover have "implements st
        (socket_requests P (output_sockets (self st)) (relay_filter (self st)) env ready j in_sock)
        (?ev # es) st'"
      using ready Inr i by (intro implements_Cons) (simp_all add: implements_def socket_requests_def)
    ultimately show ?thesis by blast
  qed
qed

end

lemma implements_frame:
  "implements st rqs es st' \<Longrightarrow> bufs_ok st' \<and> input_sockets (self st') = input_sockets (self st) \<and>
    output_sockets (self st') = output_sockets (self st) \<and>
    relay_filter (self st') = relay_filter (self st) \<and> verbose (self st') = verbose (self st)"
  by (auto simp: implements_def split_beta Let_def)

text \<open>The relays that can wait for all their input sockets.\<close>

definition fds_fit :: "Relay \<Rightarrow> bool" where
  "fds_fit relay \<longleftrightarrow> list_all (\<lambda>s. ps_fd s < FD_SETSIZE) (input_sockets relay)"

lemma build_fd_set_eq:
  "build_fd_set socks fds =
     (if list_all (\<lambda>s. ps_fd s < FD_SETSIZE) socks then Ret (fds @ map ps_fd socks) else Panic)"
  by (induction socks arbitrary: fds) simp_all

lemma build_fd_set_fit:
  "build_fd_set (input_sockets relay) [] =
     (if fds_fit relay then Ret (map ps_fd (input_sockets relay)) else Panic)"
  by (simp add: build_fd_set_eq fds_fit_def)

lemma iteration_Panic: "\<not> fds_fit (self st) \<Longrightarrow> iteration P env st = Panic"
  by (simp add: iteration_def build_fd_set_fit)

lemma run_loop_Ret_fit: "run_loop P envs st = Ret x \<Longrightarrow> fds_fit (self st) \<or> envs = []"
  using iteration_Panic [of st P] by (cases envs; cases "fds_fit (self st)") simp_all

context pnet_layout
begin

lemma handle_inputs_implements:
  assumes "bufs_ok st"
  shows "\<exists>es st'. handle_inputs P env ready j socks st = Ret (es, st') \<and>
    implements st (inputs_requests P (output_sockets (self st)) (relay_filter (self st)) env ready j socks)
      es st'"
  using assms
proof (induction socks arbitrary: j st)
  case Nil
  then show ?case by (auto intro: implements_Nil)
next
  case (Cons s socks)
  obtain es1 st1 where 1: "handle_input P env ready j s st = Ret (es1, st1)"
    "implements st (socket_requests P (output_sockets (self st)) (relay_filter (self st)) env ready j s) es1 st1"
    using handle_input_implements [OF Cons.prems] by blast
  note f = implements_frame [OF 1(2)]
  then obtain es2 st2 where 2: "handle_inputs P env ready (Suc j) socks st1 = Ret (es2, st2)"
    "implements st1 (inputs_requests P (output_sockets (self st)) (relay_filter (self st)) env ready (Suc j) socks)
      es2 st2"
    using Cons.IH [of st1 "Suc j"] by auto
  from implements_append [OF 1(2) 2(2)] 1 2 show ?case by simp
qed

lemma iteration_implements:
  assumes "bufs_ok st" "fds_fit (self st)"
  shows "case ie_select env of
      Inl e \<Rightarrow> iteration P env st = Ret ([Select (map ps_fd (input_sockets (self st))) 3], Inl [e])
    | Inr (n, ready) \<Rightarrow> \<exists>es st'. iteration P env st = Ret (es, Inr st') \<and>
        implements st
          (if n = 0 then []
           else inputs_requests P (output_sockets (self st)) (relay_filter (self st)) env ready 0
             (input_sockets (self st))) es st'"
proof (cases "ie_select env")
  case (Inl e)
  with assms(2) show ?thesis by (simp add: iteration_def build_fd_set_fit Let_def)
next
  case (Inr x)
  obtain n ready where x: "x = (n, ready)" by (cases x)
  show ?thesis
    using Inr x assms handle_inputs_implements [OF assms(1), of env ready 0 "input_sockets (self st)"]
    by (auto simp: iteration_def build_fd_set_fit Let_def intro!: implements_Nil implements_Cons does_Cons)
qed

lemma run_loop_implements:
  assumes "bufs_ok st" "fds_fit (self st) \<or> envs = []"
  shows "\<exists>es r. run_loop P envs st = Ret (es, r) \<and>
    does (verbose (self st)) es
      (granted (fst (admit (rate_limiter (self st)) (map fst (requests P (self st) envs))))
        (requests P (self st) envs)) \<and>
    (case r of Inl e \<Rightarrow> \<exists>env\<in>set envs. \<exists>err. ie_select env = Inl err \<and> e = [err]
     | Inr st' \<Rightarrow> implements st (requests P (self st) envs) es st')"
  using assms
proof (induction envs arbitrary: st)
  case Nil
  then show ?case by (auto intro: implements_Nil)
next
  case (Cons env envs)
  then have fit: "fds_fit (self st)" by simp
  show ?case
  proof (cases "ie_select env")
    case (Inl e)
    with iteration_implements [OF Cons.prems(1) fit, of env] show ?thesis
      by (auto intro: does_Cons)
  next
    case (Inr x)
    obtain n ready where x: "x = (n, ready)" by (cases x)
    let ?rq = "if n = 0 then [] else inputs_requests P (output_sockets (self st))
      (relay_filter (self st)) env ready 0 (input_sockets (self st))"
    obtain es1 st1 where 1: "iteration P env st = Ret (es1, Inr st1)" "implements st ?rq es1 st1"
      using iteration_implements [OF Cons.prems(1) fit, of env] Inr x by auto
    note f = implements_frame [OF 1(2)]
    then have vb: "verbose (self st1) = verbose (self st)" and fit1: "fds_fit (self st1)"
      using fit by (simp_all add: fds_fit_def)
    have rq: "requests P (self st1) envs = requests P (self st) envs"
    proof (induction envs)
      case (Cons e es)
      with f show ?case by (simp split: sum.split)
    qed simp
    obtain es2 r where 2: "run_loop P envs st1 = Ret (es2, r)"
      "does (verbose (self st)) es2
        (granted (fst (admit (rate_limiter (self st1)) (map fst (requests P (self st) envs))))
          (requests P (self st) envs))"
      "case r of Inl e \<Rightarrow> \<exists>env\<in>set envs. \<exists>err. ie_select env = Inl err \<and> e = [err]
       | Inr st' \<Rightarrow> implements st1 (requests P (self st) envs) es2 st'"
      using Cons.IH [OF f [THEN conjunct1]] fit1 unfolding rq vb by blast
    have all: "requests P (self st) (env # envs) = ?rq @ requests P (self st) envs"
      using Inr x by simp
    have l: "rate_limiter (self st1) = snd (admit (rate_limiter (self st)) (map fst ?rq))"
      and d: "does (verbose (self st)) es1
        (granted (fst (admit (rate_limiter (self st)) (map fst ?rq))) ?rq)"
      using 1(2) by (auto simp: implements_def split_beta Let_def)
    have "run_loop P (env # envs) st = Ret (es1 @ es2, r)" using 1 2 by simp
    moreover have "does (verbose (self st)) (es1 @ es2)
      (granted (fst (admit (rate_limiter (self st)) (map fst (requests P (self st) (env # envs)))))
        (requests P (self st) (env # envs)))"
      unfolding all using does_append [OF d 2(2)] by (simp add: admit_append granted_append l)
    moreover have "case r of Inl e \<Rightarrow> \<exists>env\<in>set (env # envs). \<exists>err. ie_select env = Inl err \<and> e = [err]
       | Inr st' \<Rightarrow> implements st (requests P (self st) (env # envs)) (es1 @ es2) st'"
      unfolding all using 2(3) implements_append [OF 1(2)] by (auto split: sum.splits)
    ultimately show ?thesis by blast
  qed
qed

end

end
