(* ===== verification/Bcr_Interface.thy ===== *)
theory Bcr_Interface
  imports Bcr_Os
begin

text \<open>
  \<open>src/src/interface.rs\<close>: the interfaces of the host, one per name, with the state of the
  first entry that \<open>getifaddrs\<close> lists for the name.
\<close>

section \<open>Definitions\<close>

record Interface =
  if_name :: string
  if_up :: bool

fun discover_loop :: "string set \<Rightarrow> Interface list \<Rightarrow> ifaddr list \<Rightarrow> Interface list" where
  "discover_loop seen_names interfaces [] = interfaces"
| "discover_loop seen_names interfaces (a # addrs) =
     (let name = ifa_name a in
      if name \<in> seen_names then discover_loop seen_names interfaces addrs
      else let is_up = (ifa_flags a AND IFF_UP = IFF_UP) in
        discover_loop (insert name seen_names) (interfaces @ [\<lparr>if_name = name, if_up = is_up\<rparr>])
          addrs)"

definition discover_interfaces :: "errno + ifaddr list \<Rightarrow> event list \<times> Interface list result" where
  "discover_interfaces getifaddrs =
     ([Getifaddrs],
      case getifaddrs of Inl e \<Rightarrow> Inl [e] | Inr addrs \<Rightarrow> Inr (discover_loop {} [] addrs))"

section \<open>Lemmas\<close>

definition ifaddr_up :: "ifaddr \<Rightarrow> bool" where
  "ifaddr_up a \<longleftrightarrow> bit (ifa_flags a) 0"

lemma ifaddr_up_iff: "ifa_flags a AND IFF_UP = IFF_UP \<longleftrightarrow> ifaddr_up a"
  by (auto simp: ifaddr_up_def IFF_UP_def and_one_eq bit_0 odd_iff_mod_2_eq_one)

text \<open>The names listed, in order of their first entry.\<close>

lemma discover_loop_spec:
  assumes "distinct (map if_name acc)" and "set (map if_name acc) = seen"
  shows "distinct (map if_name (discover_loop seen acc addrs)) \<and>
    map_of (map (\<lambda>i. (if_name i, if_up i)) (discover_loop seen acc addrs)) =
      map_of (map (\<lambda>a. (ifa_name a, ifaddr_up a)) addrs) ++
      map_of (map (\<lambda>i. (if_name i, if_up i)) acc)"
  using assms
proof (induction addrs arbitrary: seen acc)
  case (Cons a addrs)
  let ?m = "\<lambda>acc. map_of (map (\<lambda>i. (if_name i, if_up i)) acc)"
  let ?i = "\<lparr>if_name = ifa_name a, if_up = ifaddr_up a\<rparr>"
  have dom: "dom (?m acc) = seen" using Cons.prems(2) by (force simp: dom_map_of_conv_image_fst)
  show ?case
  proof (cases "ifa_name a \<in> seen")
    case True
    with dom have "(f(ifa_name a \<mapsto> x)) ++ ?m acc = f ++ ?m acc" for f x
      by (intro ext) (auto simp: map_add_def split: option.splits)
    with True Cons.IH [OF Cons.prems] show ?thesis by (simp add: fun_upd_def)
  next
    case False
    with dom have "ifa_name a \<notin> dom (?m acc)" by simp
    then have "f ++ ?m (acc @ [?i]) = (f(ifa_name a \<mapsto> ifaddr_up a)) ++ ?m acc" for f
      by (intro ext) (auto simp: map_add_def dom_def split: option.splits)
    moreover have "distinct (map if_name (discover_loop (insert (ifa_name a) seen) (acc @ [?i]) addrs)) \<and>
        ?m (discover_loop (insert (ifa_name a) seen) (acc @ [?i]) addrs) =
        map_of (map (\<lambda>a. (ifa_name a, ifaddr_up a)) addrs) ++ ?m (acc @ [?i])"
      using Cons.prems False by (intro Cons.IH) auto
    ultimately show ?thesis using False by (simp add: ifaddr_up_iff fun_upd_def Let_def)
  qed
qed simp

text \<open>What a caller relies on: each name once, with the state of its first entry.\<close>

lemma discover_loop_map:
  "distinct (map if_name (discover_loop {} [] addrs))"
  "map_of (map (\<lambda>i. (if_name i, if_up i)) (discover_loop {} [] addrs)) n =
     map_of (map (\<lambda>a. (ifa_name a, ifaddr_up a)) addrs) n"
  using discover_loop_spec [of "[]" "{}" addrs] by simp_all

lemma discover_loop_mem_iff:
  "\<lparr>if_name = n, if_up = u\<rparr> \<in> set (discover_loop {} [] addrs) \<longleftrightarrow>
   map_of (map (\<lambda>a. (ifa_name a, ifaddr_up a)) addrs) n = Some u"
proof -
  let ?r = "discover_loop {} [] addrs" and ?kv = "\<lambda>i. (if_name i, if_up i)"
  have "map fst (map ?kv ?r) = map if_name ?r" by (simp add: comp_def)
  then have d: "distinct (map fst (map ?kv ?r))" using discover_loop_map(1) [of addrs] by metis
  have "\<lparr>if_name = n, if_up = u\<rparr> \<in> set ?r \<longleftrightarrow> (n, u) \<in> set (map ?kv ?r)"
  proof
    assume "(n, u) \<in> set (map ?kv ?r)"
    then obtain i where "i \<in> set ?r" "n = if_name i" "u = if_up i" by auto
    moreover from this have "i = \<lparr>if_name = n, if_up = u\<rparr>" by simp
    ultimately show "\<lparr>if_name = n, if_up = u\<rparr> \<in> set ?r" by metis
  qed force
  also have "\<dots> \<longleftrightarrow> map_of (map ?kv ?r) n = Some u" using d by simp
  finally show ?thesis by (simp add: discover_loop_map)
qed

section \<open>Properties\<close>

text \<open>C36: the discovery lists every interface once, and an interface counts as up exactly if the first
  entry of its name has the flag \<open>IFF_UP\<close>.\<close>

theorem interfaces_unique:
  assumes "discover_interfaces (Inr addrs) = (es, Inr ifs)"
  shows "distinct (map if_name ifs) \<and>
    (\<lparr>if_name = n, if_up = u\<rparr> \<in> set ifs \<longleftrightarrow>
      map_of (map (\<lambda>a. (ifa_name a, bit (ifa_flags a) 0)) addrs) n = Some u)"
  using assms discover_loop_map(1) [of addrs] discover_loop_mem_iff [of n u addrs]
  by (simp add: discover_interfaces_def ifaddr_up_def)

definition sample_ifaddr :: "string \<Rightarrow> u32 \<Rightarrow> ifaddr" where
  "sample_ifaddr n f = \<lparr>ifa_name = n, ifa_flags = f, ifa_broadcast = None\<rparr>"

theorem interfaces_unique_witness:
  "\<exists>es ifs. discover_interfaces (Inr [sample_ifaddr ''a'' 1, sample_ifaddr ''b'' 0, sample_ifaddr ''a'' 0]) =
     (es, Inr ifs) \<and> \<lparr>if_name = ''a'', if_up = True\<rparr> \<in> set ifs"
proof -
  let ?addrs = "[sample_ifaddr ''a'' 1, sample_ifaddr ''b'' 0, sample_ifaddr ''a'' 0]"
  have d: "discover_interfaces (Inr ?addrs) = ([Getifaddrs], Inr (discover_loop {} [] ?addrs))"
    by (simp only: discover_interfaces_def sum.case)
  have "map_of (map (\<lambda>a. (ifa_name a, bit (ifa_flags a) 0)) ?addrs) ''a'' = Some True"
    by (simp add: sample_ifaddr_def)
  with interfaces_unique [OF d, of "''a''" True] d show ?thesis by blast
qed

end
