(* ===== verification/Bcr_Creds.thy ===== *)
theory Bcr_Creds
  imports Bcr_Os
begin

text \<open>
  The credentials of a process, a state of the kernel that \<open>setgroups\<close>, \<open>setgid\<close>, \<open>setuid\<close> and
  \<open>seteuid\<close> change. The kernel is a parameter: the record \<open>creds_os\<close> of the four calls on a state of any
  type, of which \<open>view\<close> shows the ids and whether the capabilities \<open>CAP_SETUID\<close> and \<open>CAP_SETGID\<close> are
  effective. The locale \<open>linux_creds\<close> states what \<open>setuid(2)\<close>, \<open>seteuid(2)\<close>, \<open>setgid(2)\<close>, \<open>setgroups(2)\<close> and
  \<open>capabilities(7)\<close> document, \<open>man_creds\<close> interprets it. A process without \<open>CAP_SETUID\<close> and without root
  among its user ids (\<open>no_root\<close>) stays so, whatever sequence of these calls it makes.
\<close>

section \<open>Definitions\<close>

record passwd =
  pw_uid :: u32
  pw_gid :: u32

record 'c creds_os =
  os_setgroups :: "u32 list \<Rightarrow> 'c \<Rightarrow> (errno + unit) \<times> 'c"
  os_setgid :: "u32 \<Rightarrow> 'c \<Rightarrow> (errno + unit) \<times> 'c"
  os_setuid :: "u32 \<Rightarrow> 'c \<Rightarrow> (errno + unit) \<times> 'c"
  os_seteuid :: "u32 \<Rightarrow> 'c \<Rightarrow> (errno + unit) \<times> 'c"

record cred =
  ruid :: u32
  euid :: u32
  suid :: u32
  rgid :: u32
  egid :: u32
  sgid :: u32
  groups :: "u32 list"
  cap_setuid :: bool
  cap_setgid :: bool

definition uids :: "cred \<Rightarrow> u32 set" where
  "uids c = {ruid c, euid c, suid c}"

definition no_root :: "cred \<Rightarrow> bool" where
  "no_root c \<longleftrightarrow> 0 \<notin> uids c \<and> \<not> cap_setuid c"

text \<open>Any further use of the calls.\<close>

datatype cred_request = OpSetgroups "u32 list" | OpSetgid u32 | OpSetuid u32 | OpSeteuid u32

fun cred_op :: "'c creds_os \<Rightarrow> cred_request \<Rightarrow> 'c \<Rightarrow> 'c" where
  "cred_op os (OpSetgroups gs) c = snd (os_setgroups os gs c)"
| "cred_op os (OpSetgid g) c = snd (os_setgid os g c)"
| "cred_op os (OpSetuid u) c = snd (os_setuid os u c)"
| "cred_op os (OpSeteuid u) c = snd (os_seteuid os u c)"

fun cred_ops :: "'c creds_os \<Rightarrow> cred_request list \<Rightarrow> 'c \<Rightarrow> 'c" where
  "cred_ops os [] c = c"
| "cred_ops os (x # xs) c = cred_ops os xs (cred_op os x c)"

section \<open>The contract\<close>

text \<open>
  With the capability the calls set the real, effective and saved id, without it only the effective
  one, and to an id that the process has. A failed call has no effect. Changes of group ids leave the
  user ids and \<open>CAP_SETUID\<close> alone, and a process that lacks \<open>CAP_SETUID\<close> gets it by a change of user ids only
  if it becomes root. \<open>seteuid(0)\<close> succeeds exactly with \<open>CAP_SETUID\<close> or with root among the user ids
  (in a user namespace that has a user 0). Nothing is said of when the other calls fail, nor of
  what a privileged change of user ids does to the capabilities: with ambient capabilities or
  \<open>SECBIT_KEEP_CAPS\<close> they may survive it.
\<close>

locale linux_creds =
  fixes os :: "'c creds_os" and view :: "'c \<Rightarrow> cred"
  assumes setgroups_ok: "os_setgroups os gs c = (Inr (), c') \<Longrightarrow> view c' = (view c)\<lparr>groups := gs\<rparr>"
    and setgid_ok: "os_setgid os g c = (Inr (), c') \<Longrightarrow> view c' =
      (if cap_setgid (view c) then (view c)\<lparr>rgid := g, egid := g, sgid := g\<rparr> else (view c)\<lparr>egid := g\<rparr>)"
    and setuid_privileged: "os_setuid os u c = (Inr (), c') \<Longrightarrow> cap_setuid (view c) \<Longrightarrow>
      \<exists>a b. view c' = (view c)\<lparr>ruid := u, euid := u, suid := u, cap_setuid := a, cap_setgid := b\<rparr>"
    and setuid_unprivileged: "os_setuid os u c = (Inr (), c') \<Longrightarrow> \<not> cap_setuid (view c) \<Longrightarrow>
      u \<in> uids (view c) \<and> (\<exists>a b. view c' = (view c)\<lparr>euid := u, cap_setuid := a, cap_setgid := b\<rparr> \<and> (a \<longrightarrow> u = 0))"
    and seteuid_unprivileged: "os_seteuid os u c = (Inr (), c') \<Longrightarrow> \<not> cap_setuid (view c) \<Longrightarrow>
      u \<in> uids (view c) \<and> (\<exists>a b. view c' = (view c)\<lparr>euid := u, cap_setuid := a, cap_setgid := b\<rparr> \<and> (a \<longrightarrow> u = 0))"
    and seteuid_0_iff: "fst (os_seteuid os 0 c) = Inr () \<longleftrightarrow> cap_setuid (view c) \<or> 0 \<in> uids (view c)"
    and failed: "os_setgroups os gs c = (Inl e, c') \<Longrightarrow> view c' = view c"
      "os_setgid os g c = (Inl e, c') \<Longrightarrow> view c' = view c"
      "os_setuid os u c = (Inl e, c') \<Longrightarrow> view c' = view c"
      "os_seteuid os u c = (Inl e, c') \<Longrightarrow> view c' = view c"
begin

lemma setuid_euid: "os_setuid os u c = (Inr (), c') \<Longrightarrow> euid (view c') = u"
  using setuid_privileged [of u c c'] setuid_unprivileged [of u c c'] by (cases "cap_setuid (view c)") auto

lemma seteuid_0_fails_iff: "fst (os_seteuid os 0 c) \<noteq> Inr () \<longleftrightarrow> no_root (view c)"
  by (auto simp: seteuid_0_iff no_root_def)

text \<open>The invariant of single calls and of every sequence of calls.\<close>

lemma no_root_uid_call:
  assumes "no_root v" and "u \<in> uids v" and "v' = v\<lparr>euid := u, cap_setuid := a, cap_setgid := b\<rparr>" and "a \<longrightarrow> u = 0"
  shows "no_root v'"
  using assms by (auto simp: no_root_def uids_def)

lemma no_root_call: "no_root (view c) \<Longrightarrow> no_root (view (cred_op os x c))"
proof (cases x)
  case (OpSetgroups gs)
  assume "no_root (view c)"
  then show ?thesis
    using OpSetgroups setgroups_ok [of gs c] failed(1) [of gs c]
    by (cases "os_setgroups os gs c"; cases "fst (os_setgroups os gs c)") (auto simp: no_root_def uids_def)
next
  case (OpSetgid g)
  assume "no_root (view c)"
  then show ?thesis
    using OpSetgid setgid_ok [of g c] failed(2) [of g c]
    by (cases "os_setgid os g c"; cases "fst (os_setgid os g c)") (auto simp: no_root_def uids_def)
next
  case (OpSetuid u)
  assume n: "no_root (view c)"
  then have "\<not> cap_setuid (view c)" by (simp add: no_root_def)
  then show ?thesis
    using n OpSetuid setuid_unprivileged [of u c] failed(3) [of u c] no_root_uid_call [OF n]
    by (cases "os_setuid os u c"; cases "fst (os_setuid os u c)") fastforce+
next
  case (OpSeteuid u)
  assume n: "no_root (view c)"
  then have "\<not> cap_setuid (view c)" by (simp add: no_root_def)
  then show ?thesis
    using n OpSeteuid seteuid_unprivileged [of u c] failed(4) [of u c] no_root_uid_call [OF n]
    by (cases "os_seteuid os u c"; cases "fst (os_seteuid os u c)") fastforce+
qed

lemma no_root_forever: "no_root (view c) \<Longrightarrow> no_root (view (cred_ops os xs c))"
  by (induction xs arbitrary: c) (simp_all add: no_root_call)

end

section \<open>An implementation from the manual pages\<close>

text \<open>
  The capabilities after a change of user ids, without ambient capabilities and securebits: all are
  cleared when the last root id goes or the effective id leaves 0, and are effective when it
  becomes 0.
\<close>

definition cap_after :: "cred \<Rightarrow> cred \<Rightarrow> bool \<Rightarrow> bool" where
  "cap_after old new cap \<longleftrightarrow>
     (if 0 \<in> uids old \<and> 0 \<notin> uids new \<or> euid old = 0 \<and> euid new \<noteq> 0 then False
      else if euid old \<noteq> 0 \<and> euid new = 0 then True
      else cap)"

definition fix_caps :: "cred \<Rightarrow> cred \<Rightarrow> cred" where
  "fix_caps old new = new\<lparr>cap_setuid := cap_after old new (cap_setuid new),
     cap_setgid := cap_after old new (cap_setgid new)\<rparr>"

definition man_creds :: "cred creds_os" where
  "man_creds = \<lparr>
     os_setgroups = (\<lambda>gs c. if cap_setgid c then (Inr (), c\<lparr>groups := gs\<rparr>) else (Inl ''EPERM'', c)),
     os_setgid = (\<lambda>g c. if cap_setgid c then (Inr (), c\<lparr>rgid := g, egid := g, sgid := g\<rparr>)
       else if g \<in> {rgid c, sgid c} then (Inr (), c\<lparr>egid := g\<rparr>) else (Inl ''EPERM'', c)),
     os_setuid = (\<lambda>u c. if cap_setuid c then (Inr (), fix_caps c (c\<lparr>ruid := u, euid := u, suid := u\<rparr>))
       else if u \<in> {ruid c, suid c} then (Inr (), fix_caps c (c\<lparr>euid := u\<rparr>)) else (Inl ''EPERM'', c)),
     os_seteuid = (\<lambda>u c. if cap_setuid c \<or> u \<in> uids c then (Inr (), fix_caps c (c\<lparr>euid := u\<rparr>))
       else (Inl ''EPERM'', c))\<rparr>"

lemma fix_caps_ids: "\<exists>a b. fix_caps old new = new\<lparr>cap_setuid := a, cap_setgid := b\<rparr>"
  unfolding fix_caps_def by blast

lemma fix_caps_gained:
  assumes "\<not> cap_setuid c"
  shows "\<exists>a b. fix_caps c (c\<lparr>euid := u\<rparr>) = c\<lparr>euid := u, cap_setuid := a, cap_setgid := b\<rparr> \<and> (a \<longrightarrow> u = 0)"
proof -
  have "cap_after c (c\<lparr>euid := u\<rparr>) (cap_setuid (c\<lparr>euid := u\<rparr>)) \<longrightarrow> u = 0"
    using assms by (simp add: cap_after_def)
  then show ?thesis unfolding fix_caps_def by blast
qed

interpretation man: linux_creds man_creds "\<lambda>c. c"
proof unfold_locales
  fix u :: u32 and c c' :: cred
  show "\<exists>a b. c' = c\<lparr>ruid := u, euid := u, suid := u, cap_setuid := a, cap_setgid := b\<rparr>"
    if "os_setuid man_creds u c = (Inr (), c')" "cap_setuid c"
  proof -
    from that have "c' = fix_caps c (c\<lparr>ruid := u, euid := u, suid := u\<rparr>)" by (simp add: man_creds_def)
    then show ?thesis by (simp only: fix_caps_ids)
  qed
  show "u \<in> uids c \<and> (\<exists>a b. c' = c\<lparr>euid := u, cap_setuid := a, cap_setgid := b\<rparr> \<and> (a \<longrightarrow> u = 0))"
    if "os_setuid man_creds u c = (Inr (), c')" "\<not> cap_setuid c"
  proof -
    from that have c': "c' = fix_caps c (c\<lparr>euid := u\<rparr>)" and "u \<in> uids c"
      by (auto simp: man_creds_def uids_def split: if_splits)
    then show ?thesis unfolding c' using fix_caps_gained [OF that(2), of u] by blast
  qed
  show "u \<in> uids c \<and> (\<exists>a b. c' = c\<lparr>euid := u, cap_setuid := a, cap_setgid := b\<rparr> \<and> (a \<longrightarrow> u = 0))"
    if "os_seteuid man_creds u c = (Inr (), c')" "\<not> cap_setuid c"
  proof -
    from that have c': "c' = fix_caps c (c\<lparr>euid := u\<rparr>)" and "u \<in> uids c"
      by (simp_all add: man_creds_def split: if_splits)
    then show ?thesis unfolding c' using fix_caps_gained [OF that(2), of u] by blast
  qed
qed (auto simp: man_creds_def split: if_splits)

end
