(* ===== verification/Bcr_Main.thy ===== *)
theory Bcr_Main
  imports Bcr_Relay Bcr_Interface Bcr_Creds
begin

text \<open>
  \<open>src/src/main.rs\<close>: the start-up checks, the creation of the sockets, the drop of
  privileges, and the hand-over to the relay loop.

  The command line is a \<open>Cli\<close> record (\<open>Bcr_Cli\<close> makes it of the arguments). The results of the system
  calls are the fields of a \<open>MainEnv\<close>. The credentials of the process are a state of the
  kernel (\<open>Bcr_Creds\<close>).
\<close>

section \<open>Definitions\<close>

subsection \<open>Errors\<close>

datatype BcrError =
    ErrConfig string
  | ErrInterface string
  | ErrSocket errno
  | ErrPermission string
  | ErrIo string

fun show_BcrError :: "BcrError \<Rightarrow> string" where
  "show_BcrError (ErrConfig m) = ''Configuration error: '' @ m"
| "show_BcrError (ErrInterface m) = ''Interface error: '' @ m"
| "show_BcrError (ErrSocket e) = ''Socket error: '' @ e"
| "show_BcrError (ErrPermission m) =
     ''Permission denied: '' @ m @ ''. bcr requires CAP_NET_RAW or root privileges''"
| "show_BcrError (ErrIo m) = ''I/O error: '' @ m"

text \<open>The chain of the \<open>anyhow::Error\<close> made of it: a \<open>#[from]\<close> error is its own cause.\<close>

definition bcr_error :: "BcrError \<Rightarrow> anyhow" where
  "bcr_error e = show_BcrError e #
     (case e of ErrSocket c \<Rightarrow> [c] | ErrIo c \<Rightarrow> [c] | _ \<Rightarrow> [])"

subsection \<open>Start-up checks\<close>

definition validate_permissions :: "u32 \<Rightarrow> unit traced" where
  "validate_permissions uid =
     ([Geteuid],
      if uid \<noteq> 0
      then Inl (bcr_error (ErrPermission ''bcr requires root privileges or CAP_NET_RAW capability''))
      else Inr ())"

definition missing_interface :: "string \<Rightarrow> string \<Rightarrow> anyhow" where
  "missing_interface kind i =
     bcr_error (ErrInterface (kind @ '' interface '' @ quoted i @ '' not found or not up''))"

fun check_interfaces :: "string \<Rightarrow> string list \<Rightarrow> string list \<Rightarrow> unit result" where
  "check_interfaces kind if_names [] = Inr ()"
| "check_interfaces kind if_names (i # ifs) =
     (if i \<notin> set if_names
      then Inl (missing_interface kind i)
      else check_interfaces kind if_names ifs)"

definition no_output_warning :: "string \<Rightarrow> event" where
  "no_output_warning in_if = Eprintln
     (''Warning: input interface '' @ quoted in_if @ '' has no distinct output interface; '' @
      ''packets received on it will not be relayed (bcr never echoes a '' @
      ''packet back out its ingress interface)'')"

definition validate_startup ::
  "Config \<Rightarrow> string list \<Rightarrow> string list \<Rightarrow> errno + ifaddr list \<Rightarrow> unit traced" where
  "validate_startup cfg input_ifs output_ifs getifaddrs =
     step_then (discover_interfaces getifaddrs) (\<lambda>interfaces.
     let if_names = map if_name (filter if_up interfaces) in
     step_then ([], check_interfaces ''Input'' if_names input_ifs) (\<lambda>_.
     step_then ([], check_interfaces ''Output'' if_names output_ifs) (\<lambda>_.
     ((if list_all (\<lambda>r. rule_action r = Deny) (rules cfg)
       then [Eprintln ''Warning: Configuration has no allow rules, no packets will be relayed'']
       else []) @
      concat (map (\<lambda>in_if. if \<not> list_ex (\<lambda>ot. ot \<noteq> in_if) output_ifs
                           then [no_output_warning in_if] else []) input_ifs),
      Inr ()))))"

subsection \<open>Dropping privileges\<close>

text \<open>A call that may change the credentials, and what follows it if it succeeds.\<close>

definition cred_call ::
  "event \<Rightarrow> string \<Rightarrow> (errno + unit) \<times> 'c \<Rightarrow> ('c \<Rightarrow> event list \<times> unit result \<times> 'c)
     \<Rightarrow> event list \<times> unit result \<times> 'c" where
  "cred_call ev ctxt res k =
     (case res of
        (Inl e, c) \<Rightarrow> ([ev], Inl [ctxt, e], c)
      | (Inr _, c) \<Rightarrow> (case k c of (es, r) \<Rightarrow> (ev # es, r)))"

definition confirm_drop ::
  "'c creds_os \<Rightarrow> string \<Rightarrow> passwd \<Rightarrow> 'c \<Rightarrow> event list \<times> unit result \<times> 'c" where
  "confirm_drop os username user c =
     (case os_seteuid os 0 c of
        (Inr _, c') \<Rightarrow> ([Seteuid 0], Inl (bcr_error (ErrPermission
            ''privilege drop failed: process can still regain root'')), c')
      | (Inl _, c') \<Rightarrow>
          ([Seteuid 0, Println (''Dropped privileges to '' @ quoted username @ '' (uid='' @
              show_word (pw_uid user) @ '', gid='' @ show_word (pw_gid user) @ '')'')], Inr (), c'))"

definition drop_privileges ::
  "'c creds_os \<Rightarrow> errno + passwd option \<Rightarrow> string \<Rightarrow> 'c \<Rightarrow> event list \<times> unit result \<times> 'c" where
  "drop_privileges os from_name username c0 =
     (case from_name of
        Inl e \<Rightarrow> ([Getpwnam username], Inl [''Failed to look up user '' @ quoted username, e], c0)
      | Inr None \<Rightarrow> ([Getpwnam username],
          Inl (bcr_error (ErrPermission (''User '' @ quoted username @ '' does not exist''))), c0)
      | Inr (Some user) \<Rightarrow>
          let uid = pw_uid user; gid = pw_gid user;
              run = cred_call (Setgroups [gid]) ''Failed to drop supplementary groups''
                      (os_setgroups os [gid] c0) (\<lambda>c1.
                    cred_call (Setgid gid) (''Failed to setgid to '' @ show_word gid)
                      (os_setgid os gid c1) (\<lambda>c2.
                    cred_call (Setuid uid) (''Failed to setuid to '' @ show_word uid)
                      (os_setuid os uid c2) (\<lambda>c3.
                    confirm_drop os username user c3)))
          in (Getpwnam username # fst run, snd run))"

subsection \<open>The program\<close>

record Cli =
  cli_input :: "string list"
  cli_output :: "string list"
  cli_config :: "string option"
  cli_user :: string
  cli_no_drop :: bool
  cli_rate_limit :: u32
  cli_rate_burst :: "u32 option"
  cli_verbose :: bool

record 'c MainEnv =
  me_euid :: u32
  me_read_file :: "string \<Rightarrow> string result"
  me_ifaddrs :: "errno + ifaddr list"
  me_input_env :: "nat \<Rightarrow> socket_env"
  me_output_env :: "nat \<Rightarrow> socket_env"
  me_now :: nat
  me_user :: "errno + passwd option"
  me_creds :: 'c
  me_iters :: "IterEnv list"

definition load_config :: "(string \<Rightarrow> string result) \<Rightarrow> string option \<Rightarrow> Config traced" where
  "load_config read_file path =
     (case path of
        Some p \<Rightarrow> ([Read_file p],
          (case from_file read_file p of
             Inl e \<Rightarrow> Inl (bcr_error (ErrConfig (''Failed to load config: '' @ display_error e)))
           | Inr cfg \<Rightarrow> Inr cfg))
      | None \<Rightarrow> ([], Inr allow_all))"

fun open_sockets ::
  "string \<Rightarrow> (nat \<Rightarrow> socket_env) \<Rightarrow> nat \<Rightarrow> string list \<Rightarrow> PacketSocket list traced" where
  "open_sockets kind env k [] = ([], Inr [])"
| "open_sockets kind env k (i # ifs) =
     step_then (traced_context (''Failed to create socket for '' @ kind @ '' interface '' @ quoted i)
       (PacketSocket_new (env k) i)) (\<lambda>s.
     step_then (open_sockets kind env (Suc k) ifs) (\<lambda>ss. ([], Inr (s # ss))))"

definition make_limiter :: "Cli \<Rightarrow> nat \<Rightarrow> RateLimiter option traced" where
  "make_limiter cli now =
     (if 0 < cli_rate_limit cli
      then let burst = (case cli_rate_burst cli of Some b \<Rightarrow> b | None \<Rightarrow> cli_rate_limit cli)
           in ([Instant_now], Inr (Some (RateLimiter_new (cli_rate_limit cli) burst now)))
      else ([], Inr None))"

fun join :: "string \<Rightarrow> string list \<Rightarrow> string" where
  "join sep [] = []"
| "join sep [s] = s"
| "join sep (s # t # ss) = s @ sep @ join sep (t # ss)"

definition banner :: "Cli \<Rightarrow> event list" where
  "banner cli = [
     Println ''bcr v0.2.0 starting'',
     Println (''  Input:   '' @ join '', '' (cli_input cli)),
     Println (''  Output:  '' @ join '', '' (cli_output cli)),
     Println (''  Config:  '' @ (case cli_config cli of Some p \<Rightarrow> p | None \<Rightarrow> ''(none)'')),
     Println (''  Drop to: '' @ (if cli_no_drop cli then ''(disabled)'' else cli_user cli)),
     Println (''  Rate:    '' @
       (if 0 < cli_rate_limit cli
        then show_word (cli_rate_limit cli) @ '' pkt/s (burst '' @
          show_word (case cli_rate_burst cli of Some b \<Rightarrow> b | None \<Rightarrow> cli_rate_limit cli) @ '')''
        else ''unlimited'')),
     Println (''  Verbose: '' @ (if cli_verbose cli then ''true'' else ''false'')),
     Println []]"

definition start_relay :: "Cli \<Rightarrow> 'c MainEnv \<Rightarrow> Relay traced" where
  "start_relay cli env =
     step_then (validate_permissions (me_euid env)) (\<lambda>_.
     step_then (load_config (me_read_file env) (cli_config cli)) (\<lambda>config.
     step_then (validate_startup config (cli_input cli) (cli_output cli) (me_ifaddrs env)) (\<lambda>_.
     step_then (open_sockets ''input'' (me_input_env env) 0 (cli_input cli)) (\<lambda>input_sockets.
     step_then (open_sockets ''output'' (me_output_env env) 0 (cli_output cli)) (\<lambda>output_sockets.
     step_then (make_limiter cli (me_now env)) (\<lambda>limiter.
     (banner cli,
      Inr \<lparr>input_sockets = input_sockets, output_sockets = output_sockets,
           relay_filter = Filter_new config, rate_limiter = limiter, verbose = cli_verbose cli\<rparr>)))))))"

definition leave_root :: "'c creds_os \<Rightarrow> Cli \<Rightarrow> 'c MainEnv \<Rightarrow> 'c traced" where
  "leave_root os cli env =
     (if cli_no_drop cli
      then ([Eprintln ''Warning: --no-drop set, running as root for the entire lifetime''],
            Inr (me_creds env))
      else case drop_privileges os (me_user env) (cli_user cli) (me_creds env) of
        (es, Inl e, c) \<Rightarrow> (es, Inl e)
      | (es, Inr _, c) \<Rightarrow> (es, Inr c))"

text \<open>
  The result is an error if the process has exited; otherwise the loop is still running after
  the given iterations, and the result is its state with the credentials it runs under.
\<close>

definition main ::
  "pnet \<Rightarrow> 'c creds_os \<Rightarrow> Cli \<Rightarrow> 'c MainEnv \<Rightarrow> (event list \<times> (RunState \<times> 'c) result) outcome" where
  "main P os cli env =
     (case step_then (start_relay cli env) (\<lambda>relay.
        step_then (leave_root os cli env) (\<lambda>c. ([], Inr (relay, c)))) of
       (es, Inl e) \<Rightarrow> Ret (es, Inl e)
     | (es, Inr (relay, c)) \<Rightarrow> seq (run P (me_iters env) relay) (\<lambda>(es', r).
         Ret (es @ es', case r of Inl e \<Rightarrow> Inl e | Inr st \<Rightarrow> Inr (st, c))))"

section \<open>Lemmas\<close>

definition drop_events :: "string \<Rightarrow> passwd \<Rightarrow> event list" where
  "drop_events username user =
     [Getpwnam username, Setgroups [pw_gid user], Setgid (pw_gid user), Setuid (pw_uid user), Seteuid 0]"

lemma cred_call_ok_iff:
  "cred_call ev ctxt res k = (es, Inr v, c) \<longleftrightarrow>
   (\<exists>c' es'. res = (Inr (), c') \<and> k c' = (es', Inr v, c) \<and> es = ev # es')"
  by (auto simp: cred_call_def split: prod.splits sum.splits)

lemma confirm_drop_ok:
  "confirm_drop os username user c0 = (es, Inr (), c) \<Longrightarrow>
   \<exists>e msg. os_seteuid os 0 c0 = (Inl e, c) \<and> es = [Seteuid 0, Println msg]"
  by (auto simp: confirm_drop_def split: prod.splits sum.splits)

lemma Cons_fst_snd_iff: "(x # fst r, snd r) = (es, v) \<longleftrightarrow> (\<exists>es'. r = (es', v) \<and> es = x # es')"
  by (cases r) auto

lemma drop_privileges_ok:
  assumes "drop_privileges os from_name username c0 = (es, Inr (), c)"
  obtains user c1 c2 c3 e msg where "from_name = Inr (Some user)"
    "os_setgroups os [pw_gid user] c0 = (Inr (), c1)" "os_setgid os (pw_gid user) c1 = (Inr (), c2)"
    "os_setuid os (pw_uid user) c2 = (Inr (), c3)" "os_seteuid os 0 c3 = (Inl e, c)"
    "es = drop_events username user @ [Println msg]"
proof -
  obtain user where u: "from_name = Inr (Some user)"
    using assms by (auto simp: drop_privileges_def split: sum.splits option.splits)
  show thesis
    using assms that [OF u] unfolding u drop_privileges_def Let_def sum.case option.case
    by (auto simp only: Cons_fst_snd_iff cred_call_ok_iff drop_events_def append.simps
        dest!: confirm_drop_ok)
qed

text \<open>The ids of a process that has become the user: all user ids, which are not root's, all group ids,
  and the only supplementary group.\<close>

definition dropped_to :: "passwd \<Rightarrow> cred \<Rightarrow> bool" where
  "dropped_to user c \<longleftrightarrow>
     ruid c = pw_uid user \<and> euid c = pw_uid user \<and> suid c = pw_uid user \<and> pw_uid user \<noteq> 0 \<and>
     rgid c = pw_gid user \<and> egid c = pw_gid user \<and> sgid c = pw_gid user \<and> groups c = [pw_gid user]"

context linux_creds
begin

lemma drop_privileges_drops:
  assumes "drop_privileges os from_name username c0 = (es, Inr (), c)"
  shows "\<exists>user. from_name = Inr (Some user) \<and> no_root (view c) \<and> euid (view c) = pw_uid user \<and>
    (cap_setuid (view c0) \<and> cap_setgid (view c0) \<longrightarrow> dropped_to user (view c))"
proof -
  obtain user c1 c2 c3 e msg where u: "from_name = Inr (Some user)"
    and 1: "os_setgroups os [pw_gid user] c0 = (Inr (), c1)"
    and 2: "os_setgid os (pw_gid user) c1 = (Inr (), c2)"
    and 3: "os_setuid os (pw_uid user) c2 = (Inr (), c3)" and 4: "os_seteuid os 0 c3 = (Inl e, c)"
    using assms by (rule drop_privileges_ok)
  have v: "view c = view c3" using failed(4) [OF 4] .
  have n: "no_root (view c)" using seteuid_0_fails_iff [of c3] 4 v by simp
  have eu: "euid (view c) = pw_uid user" using setuid_euid [OF 3] v by simp
  have "dropped_to user (view c)" if caps: "cap_setuid (view c0)" "cap_setgid (view c0)"
  proof -
    note v1 = setgroups_ok [OF 1]
    have v2: "view c2 = (view c1)\<lparr>rgid := pw_gid user, egid := pw_gid user, sgid := pw_gid user\<rparr>"
      using setgid_ok [OF 2] v1 caps by simp
    have "cap_setuid (view c2)" using v1 v2 caps by simp
    from setuid_privileged [OF 3 this] show ?thesis
      using n v v1 v2 by (auto simp: dropped_to_def no_root_def uids_def)
  qed
  with u n eu show ?thesis by blast
qed

lemma drop_privileges_refuses_root:
  assumes "from_name = Inr (Some user)" and "pw_uid user = 0"
  shows "fst (snd (drop_privileges os from_name username c0)) \<noteq> Inr ()"
proof
  assume "fst (snd (drop_privileges os from_name username c0)) = Inr ()"
  then have "drop_privileges os from_name username c0 =
      (fst (drop_privileges os from_name username c0), Inr (), snd (snd (drop_privileges os from_name username c0)))"
    by (metis prod.collapse)
  from drop_privileges_drops [OF this] assms show False by (auto simp: no_root_def uids_def)
qed

end

section \<open>The start-up\<close>

lemma validate_permissions_ok: "validate_permissions u = (es, Inr ()) \<longleftrightarrow> u = 0 \<and> es = [Geteuid]"
  by (auto simp: validate_permissions_def)

lemma check_interfaces_ok_iff: "check_interfaces kind names ifs = Inr () \<longleftrightarrow> set ifs \<subseteq> set names"
  by (induction ifs) auto

lemma check_interfaces_find:
  "check_interfaces kind names ifs =
   (case find (\<lambda>i. i \<notin> set names) ifs of None \<Rightarrow> Inr () | Some i \<Rightarrow> Inl (missing_interface kind i))"
  by (induction ifs) simp_all

text \<open>An interface is usable if its first entry says that it is up.\<close>

definition usable :: "ifaddr list \<Rightarrow> string \<Rightarrow> bool" where
  "usable addrs n \<longleftrightarrow> map_of (map (\<lambda>a. (ifa_name a, ifaddr_up a)) addrs) n = Some True"

lemma usable_iff:
  "n \<in> set (map if_name (filter if_up (discover_loop {} [] addrs))) \<longleftrightarrow> usable addrs n"
proof -
  have "n \<in> set (map if_name (filter if_up (discover_loop {} [] addrs))) \<longleftrightarrow>
      \<lparr>if_name = n, if_up = True\<rparr> \<in> set (discover_loop {} [] addrs)"
    by (auto simp: image_iff) (metis Interface.cases Interface.select_convs)+
  then show ?thesis by (simp add: discover_loop_mem_iff usable_def)
qed

lemma validate_startup_ok_iff:
  "snd (validate_startup cfg ins outs g) = Inr () \<longleftrightarrow>
   (\<exists>addrs. g = Inr addrs \<and> (\<forall>i\<in>set ins \<union> set outs. usable addrs i))"
proof (cases g)
  case (Inr addrs)
  then show ?thesis
    by (auto simp: validate_startup_def discover_interfaces_def snd_step_then Let_def and_then_Inr_iff
        check_interfaces_ok_iff subset_iff usable_iff [symmetric])
qed (simp add: validate_startup_def discover_interfaces_def)

section \<open>Traffic\<close>

definition quiet :: "event list \<Rightarrow> bool" where
  "quiet es \<longleftrightarrow> (\<forall>e\<in>set es. \<not> is_traffic e)"

lemma quiet_simps [simp]:
  "quiet []" "quiet (e # es) \<longleftrightarrow> \<not> is_traffic e \<and> quiet es" "quiet (es @ es') \<longleftrightarrow> quiet es \<and> quiet es'"
  by (auto simp: quiet_def)

lemma quiet_step_then:
  "quiet (fst m) \<Longrightarrow> (\<And>v. quiet (fst (f v))) \<Longrightarrow> quiet (fst (step_then m f))"
  by (simp add: fst_step_then split: sum.split)

lemma quiet_new: "quiet (fst (traced_context c (PacketSocket_new env n)))"
  using PacketSocket_new_no_traffic [of _ env n] by (auto simp: quiet_def traced_context_def)

lemma quiet_open_sockets: "quiet (fst (open_sockets kind env k ifs))"
  by (induction ifs arbitrary: k) (auto intro!: quiet_step_then quiet_new)

lemma quiet_validate_startup: "quiet (fst (validate_startup cfg ins outs g))"
  unfolding validate_startup_def Let_def
  by (intro quiet_step_then) (auto simp: discover_interfaces_def quiet_def no_output_warning_def)

lemma quiet_start_relay: "quiet (fst (start_relay cli env))"
  unfolding start_relay_def
  by (intro quiet_step_then quiet_validate_startup quiet_open_sockets)
    (simp_all add: validate_permissions_def load_config_def make_limiter_def banner_def Let_def
      split: option.split)

lemma quiet_cred_call:
  "\<not> is_traffic ev \<Longrightarrow> (\<And>c. quiet (fst (k c))) \<Longrightarrow> quiet (fst (cred_call ev ctxt res k))"
  by (simp add: cred_call_def split_beta split: sum.split)

lemma quiet_drop_privileges: "quiet (fst (drop_privileges os g n c))"
proof -
  have "quiet (fst (confirm_drop os n u c))" for u c
    by (simp add: confirm_drop_def split_beta split: sum.split)
  then show ?thesis
    by (simp add: drop_privileges_def Let_def quiet_cred_call split: sum.split option.split)
qed

lemma quiet_leave_root: "quiet (fst (leave_root os cli env))"
  using quiet_drop_privileges [of os "me_user env" "cli_user cli" "me_creds env"]
  by (auto simp: leave_root_def split: sum.split prod.split)

lemma main_cases:
  assumes "main P os cli env = Ret (tr, r)"
  obtains (refused) err where "quiet tr" "r = Inl err"
  | (started) es1 relay es2 c es3 r3 where "start_relay cli env = (es1, Inr relay)"
    "leave_root os cli env = (es2, Inr c)" "run P (me_iters env) relay = Ret (es3, r3)"
    "tr = es1 @ es2 @ es3" "r = (case r3 of Inl e \<Rightarrow> Inl e | Inr st \<Rightarrow> Inr (st, c))"
proof -
  obtain es1 r1 where 1: "start_relay cli env = (es1, r1)" by (cases "start_relay cli env")
  obtain es2 r2 where 2: "leave_root os cli env = (es2, r2)" by (cases "leave_root os cli env")
  have q: "quiet es1" "quiet es2"
    using quiet_start_relay [of cli env] quiet_leave_root [of os cli env] 1 2 by simp_all
  show thesis
  proof (cases r1)
    case (Inl e)
    with assms 1 q show ?thesis by (intro refused) (auto simp: main_def)
  next
    case (Inr relay)
    show ?thesis
    proof (cases r2)
      case (Inl e)
      with assms 1 2 Inr q show ?thesis by (intro refused) (auto simp: main_def)
    next
      case (Inr c)
      with assms 1 2 \<open>r1 = Inr relay\<close> obtain es3 r3 where "run P (me_iters env) relay = Ret (es3, r3)"
        "tr = es1 @ es2 @ es3" "r = (case r3 of Inl e \<Rightarrow> Inl e | Inr st \<Rightarrow> Inr (st, c))"
        by (auto simp: main_def seq_Ret_iff)
      with 1 2 Inr \<open>r1 = Inr relay\<close> show ?thesis by (intro started) auto
    qed
  qed
qed

lemma open_sockets_ok:
  "open_sockets kind env k ifs = (es, Inr ss) \<Longrightarrow>
   map ps_ifname ss = ifs \<and> (\<forall>s\<in>set ss. ps_broadcast_addrs s \<noteq> [] \<and> distinct (ps_broadcast_addrs s))"
  by (induction ifs arbitrary: k es ss)
    (fastforce simp: step_then_Inr_iff traced_context_Inr_iff PacketSocket_new_Inr_iff
      lookup_broadcasts_nonempty lookup_broadcasts_distinct)+

definition cli_burst :: "Cli \<Rightarrow> u32" where
  "cli_burst cli = (case cli_rate_burst cli of Some b \<Rightarrow> b | None \<Rightarrow> cli_rate_limit cli)"

lemma start_relay_ok:
  assumes "start_relay cli env = (es, Inr relay)"
  shows "me_euid env = 0 \<and>
    (\<exists>addrs. me_ifaddrs env = Inr addrs \<and>
       (\<forall>i\<in>set (cli_input cli) \<union> set (cli_output cli). usable addrs i)) \<and>
    map ps_ifname (input_sockets relay) = cli_input cli \<and>
    map ps_ifname (output_sockets relay) = cli_output cli \<and>
    snd (load_config (me_read_file env) (cli_config cli)) = Inr (config (relay_filter relay)) \<and>
    rate_limiter relay = (if 0 < cli_rate_limit cli
      then Some (RateLimiter_new (cli_rate_limit cli) (cli_burst cli) (me_now env)) else None) \<and>
    verbose relay = cli_verbose cli"
proof -
  from assms obtain es1 es2 cfg es3 es4 ins es5 outs es6 lim where
    1: "validate_permissions (me_euid env) = (es1, Inr ())" and
    2: "load_config (me_read_file env) (cli_config cli) = (es2, Inr cfg)" and
    3: "validate_startup cfg (cli_input cli) (cli_output cli) (me_ifaddrs env) = (es3, Inr ())" and
    4: "open_sockets ''input'' (me_input_env env) 0 (cli_input cli) = (es4, Inr ins)" and
    5: "open_sockets ''output'' (me_output_env env) 0 (cli_output cli) = (es5, Inr outs)" and
    6: "make_limiter cli (me_now env) = (es6, Inr lim)" and
    r: "relay = \<lparr>input_sockets = ins, output_sockets = outs, relay_filter = Filter_new cfg,
         rate_limiter = lim, verbose = cli_verbose cli\<rparr>"
    by (auto simp only: start_relay_def step_then_Inr_iff prod.inject sum.inject unit_all_eq1)
  have "me_euid env = 0" using 1 by (simp add: validate_permissions_ok)
  moreover have "\<exists>addrs. me_ifaddrs env = Inr addrs \<and>
       (\<forall>i\<in>set (cli_input cli) \<union> set (cli_output cli). usable addrs i)"
    using validate_startup_ok_iff [of cfg "cli_input cli" "cli_output cli" "me_ifaddrs env"] 3 by simp
  moreover have "lim = (if 0 < cli_rate_limit cli
      then Some (RateLimiter_new (cli_rate_limit cli) (cli_burst cli) (me_now env)) else None)"
    using 6 by (auto simp: make_limiter_def cli_burst_def Let_def split: if_splits)
  ultimately show ?thesis
    using 2 open_sockets_ok [OF 4] open_sockets_ok [OF 5] by (simp add: r Filter_new_def)
qed

lemma leave_root_ok:
  assumes "leave_root os cli env = (es, Inr c)" and "\<not> cli_no_drop cli"
  shows "\<exists>user msg. me_user env = Inr (Some user) \<and> es = drop_events (cli_user cli) user @ [Println msg] \<and>
    drop_privileges os (me_user env) (cli_user cli) (me_creds env) = (es, Inr (), c)"
proof -
  have d: "drop_privileges os (me_user env) (cli_user cli) (me_creds env) = (es, Inr (), c)"
    using assms by (auto simp: leave_root_def split: prod.splits sum.splits)
  then obtain user e c3 msg where "me_user env = Inr (Some user)"
    "es = drop_events (cli_user cli) user @ [Println msg]"
    by (rule drop_privileges_ok) blast
  with d show ?thesis by blast
qed

lemma main_drops:
  assumes "linux_creds os view" and "\<not> cli_no_drop cli" and "main P os cli env = Ret (tr, Inr (st, c))"
  shows "\<exists>user. me_user env = Inr (Some user) \<and> Getpwnam (cli_user cli) \<in> set tr \<and>
    (\<forall>calls. no_root (view (cred_ops os calls c))) \<and> euid (view c) = pw_uid user \<and>
    (cap_setuid (view (me_creds env)) \<and> cap_setgid (view (me_creds env)) \<longrightarrow> dropped_to user (view c))"
  using assms(3)
proof (cases rule: main_cases)
  case (started es1 relay es2 c' es3 r3)
  then have c: "c' = c" by (auto split: sum.splits)
  obtain user msg where u: "me_user env = Inr (Some user)" "es2 = drop_events (cli_user cli) user @ [Println msg]"
    and d: "drop_privileges os (me_user env) (cli_user cli) (me_creds env) = (es2, Inr (), c)"
    using leave_root_ok [OF started(2) assms(2)] c by blast
  have "Getpwnam (cli_user cli) \<in> set tr" using started(4) u(2) by (simp add: drop_events_def)
  with linux_creds.drop_privileges_drops [OF assms(1) d] u(1) show ?thesis
    using linux_creds.no_root_forever [OF assms(1), of c] by auto
qed simp

section \<open>Properties\<close>

text \<open>C37: the start-up check passes exactly if the interfaces can be listed and every input and
  output interface is listed and up; warnings never stop the start.\<close>

theorem startup_accepts_iff:
  "snd (validate_startup cfg ins outs g) = Inr () \<longleftrightarrow>
   (\<exists>addrs. g = Inr addrs \<and> list_all (usable addrs) (ins @ outs))"
  by (auto simp: validate_startup_ok_iff list_all_iff)

definition root_cred :: cred where
  "root_cred = \<lparr>ruid = 0, euid = 0, suid = 0, rgid = 0, egid = 0, sgid = 0, groups = [0, 4],
     cap_setuid = True, cap_setgid = True\<rparr>"

definition nobody :: passwd where
  "nobody = \<lparr>pw_uid = 65534, pw_gid = 65534\<rparr>"

lemma sample_drop: "\<exists>es c. drop_privileges man_creds (Inr (Some nobody)) ''nobody'' root_cred = (es, Inr (), c)"
  by (simp add: drop_privileges_def cred_call_def confirm_drop_def man_creds_def root_cred_def nobody_def
      fix_caps_def cap_after_def uids_def)

text \<open>C23: if the drop of privileges succeeds, the calls were made in the order groups, gid, uid, the
  process has the effective uid of the user and root neither among its user ids nor within reach: no
  sequence of further \<open>setgroups\<close>, \<open>setgid\<close>, \<open>setuid\<close> and \<open>seteuid\<close> calls, with any arguments, gives it a user
  id 0 or \<open>CAP_SETUID\<close>. If it had \<open>CAP_SETUID\<close> and \<open>CAP_SETGID\<close> at the start, all its user and group ids are
  those of the user's entry, and the only supplementary group is that of the entry.\<close>

theorem drop_is_permanent:
  assumes "linux_creds os view" and "drop_privileges os from_name username c0 = (es, Inr (), c)"
  shows "\<exists>user msg. from_name = Inr (Some user) \<and> euid (view c) = pw_uid user \<and>
    (\<forall>calls. 0 \<notin> uids (view (cred_ops os calls c)) \<and> \<not> cap_setuid (view (cred_ops os calls c))) \<and>
    (cap_setuid (view c0) \<and> cap_setgid (view c0) \<longrightarrow> dropped_to user (view c)) \<and>
    es = [Getpwnam username, Setgroups [pw_gid user], Setgid (pw_gid user), Setuid (pw_uid user),
          Seteuid 0, Println msg]"
proof -
  obtain user msg where u: "from_name = Inr (Some user)" "es = drop_events username user @ [Println msg]"
    using drop_privileges_ok [OF assms(2)] by blast
  from linux_creds.drop_privileges_drops [OF assms] u(1) have d: "no_root (view c)" "euid (view c) = pw_uid user"
    "cap_setuid (view c0) \<and> cap_setgid (view c0) \<longrightarrow> dropped_to user (view c)" by auto
  have "0 \<notin> uids (view (cred_ops os calls c)) \<and> \<not> cap_setuid (view (cred_ops os calls c))" for calls
    using linux_creds.no_root_forever [OF assms(1) d(1), of calls] by (simp add: no_root_def)
  with u d(2,3) show ?thesis unfolding drop_events_def append.simps by blast
qed

theorem drop_is_permanent_witness:
  "\<exists>es c. drop_privileges man_creds (Inr (Some nobody)) ''nobody'' root_cred = (es, Inr (), c) \<and>
     ruid c = 65534 \<and> groups c = [65534] \<and> 0 \<notin> uids (cred_ops man_creds [OpSetuid 0, OpSeteuid 0] c)"
proof -
  obtain es c where d: "drop_privileges man_creds (Inr (Some nobody)) ''nobody'' root_cred = (es, Inr (), c)"
    using sample_drop by blast
  have "cap_setuid root_cred" "cap_setgid root_cred" by (simp_all add: root_cred_def)
  with drop_is_permanent [OF man.linux_creds_axioms d] have "dropped_to nobody c"
    "0 \<notin> uids (cred_ops man_creds [OpSetuid 0, OpSeteuid 0] c)" by blast+
  with d show ?thesis unfolding dropped_to_def by (auto simp: nobody_def)
qed




definition sample_cli :: Cli where
  "sample_cli = \<lparr>cli_input = [''eth1''], cli_output = [''eth1''], cli_config = None, cli_user = ''nobody'',
     cli_no_drop = False, cli_rate_limit = 0, cli_rate_burst = None, cli_verbose = False\<rparr>"

definition idle_pass :: IterEnv where
  "idle_pass = \<lparr>ie_select = Inr (0, []), ie_recv = (\<lambda>_. Inl []), ie_now = (\<lambda>_. 0), ie_send = (\<lambda>_ _. Inr 0)\<rparr>"

definition sample_env :: "cred MainEnv" where
  "sample_env = \<lparr>me_euid = 0, me_read_file = (\<lambda>p. Inl []),
     me_ifaddrs = Inr [\<lparr>ifa_name = ''eth1'', ifa_flags = 1, ifa_broadcast = None\<rparr>],
     me_input_env = (\<lambda>_. sample_socket_env), me_output_env = (\<lambda>_. sample_socket_env), me_now = 0,
     me_user = Inr (Some nobody), me_creds = root_cred, me_iters = [idle_pass]\<rparr>"

lemma sample_open: "\<exists>es. open_sockets kind (\<lambda>_. sample_socket_env) k [''eth1''] = (es, Inr [sample_output])"
  using sample_socket_new by (auto simp: step_then_Inr_iff traced_context_Inr_iff)

lemma sample_start: "\<exists>es relay. start_relay sample_cli sample_env = (es, Inr relay) \<and> fds_fit relay"
proof -
  let ?addrs = "[\<lparr>ifa_name = ''eth1'', ifa_flags = 1, ifa_broadcast = None\<rparr> :: ifaddr]"
  have "list_all (usable ?addrs) ([''eth1''] @ [''eth1''])" by (simp add: usable_def ifaddr_up_def)
  then have "snd (validate_startup allow_all [''eth1''] [''eth1''] (Inr ?addrs)) = Inr ()"
    by (simp only: validate_startup_ok_iff) (auto simp: list_all_iff)
  then obtain es3 where 3: "validate_startup allow_all [''eth1''] [''eth1''] (Inr ?addrs) = (es3, Inr ())"
    by (metis prod.collapse)
  obtain es4 es5 where 4: "open_sockets ''input'' (\<lambda>_. sample_socket_env) 0 [''eth1''] = (es4, Inr [sample_output])"
    and 5: "open_sockets ''output'' (\<lambda>_. sample_socket_env) 0 [''eth1''] = (es5, Inr [sample_output])"
    using sample_open by blast
  have sel: "cli_input sample_cli = [''eth1'']" "cli_output sample_cli = [''eth1'']"
    "cli_config sample_cli = None" "cli_rate_limit sample_cli = 0" "me_euid sample_env = 0"
    "me_ifaddrs sample_env = Inr ?addrs" "me_input_env sample_env = (\<lambda>_. sample_socket_env)"
    "me_output_env sample_env = (\<lambda>_. sample_socket_env)"
    by (simp_all add: sample_cli_def sample_env_def)
  show ?thesis
    unfolding start_relay_def sel load_config_def make_limiter_def option.case
    by (simp add: validate_permissions_def 3 4 5 fds_fit_def sample_output_def FD_SETSIZE_def del: open_sockets.simps)
qed

text \<open>C38: a relay that starts does so as root, with one socket for each interface of the command
  line, in its order, all of them listed and up, with the rules of the configuration file (or one
  rule that allows everything), and with the limiter that the options ask for: none for rate 0, and
  the burst of one second of rate by default.\<close>

theorem relay_matches_command_line:
  assumes "start_relay cli env = (es, Inr relay)"
  shows "me_euid env = 0 \<and>
    (\<exists>addrs. me_ifaddrs env = Inr addrs \<and> list_all (usable addrs) (cli_input cli @ cli_output cli)) \<and>
    map ps_ifname (input_sockets relay) = cli_input cli \<and>
    map ps_ifname (output_sockets relay) = cli_output cli \<and>
    (case cli_config cli of
       None \<Rightarrow> config (relay_filter relay) = allow_all
     | Some p \<Rightarrow> from_file (me_read_file env) p = Inr (config (relay_filter relay))) \<and>
    rate_limiter relay =
      (if 0 < cli_rate_limit cli
       then Some (RateLimiter_new (cli_rate_limit cli)
              (case cli_rate_burst cli of Some b \<Rightarrow> b | None \<Rightarrow> cli_rate_limit cli) (me_now env))
       else None) \<and>
    verbose relay = cli_verbose cli"
  using start_relay_ok [OF assms]
  by (auto simp: list_all_iff cli_burst_def load_config_def split: option.splits sum.splits)

theorem relay_matches_command_line_witness:
  "\<exists>es relay. start_relay sample_cli sample_env = (es, Inr relay) \<and>
     map ps_ifname (output_sockets relay) = [''eth1''] \<and> rate_limiter relay = None"
proof -
  obtain es relay where s: "start_relay sample_cli sample_env = (es, Inr relay)"
    using sample_start by blast
  have "cli_output sample_cli = [''eth1'']" "cli_rate_limit sample_cli = 0"
    by (simp_all add: sample_cli_def)
  with relay_matches_command_line [OF s] s show ?thesis by auto
qed

text \<open>C8: unless \<open>--no-drop\<close> is given, the relay does not touch the network (no select, read or send)
  before it has dropped its privileges: either the program ends without any traffic, or it was
  started as root and the whole sequence of the drop stands in the trace before the first traffic.\<close>

theorem no_traffic_before_drop:
  assumes "main P os cli env = Ret (tr, r)" and "\<not> cli_no_drop cli"
  shows "quiet tr \<or> me_euid env = 0 \<and> (\<exists>user pre msg post. me_user env = Inr (Some user) \<and>
    tr = pre @ drop_events (cli_user cli) user @ [Println msg] @ post \<and> quiet pre)"
  using assms(1)
proof (cases rule: main_cases)
  case (started es1 relay es2 c es3 r3)
  obtain user msg where "me_user env = Inr (Some user)"
    "es2 = drop_events (cli_user cli) user @ [Println msg]"
    using leave_root_ok [OF started(2) assms(2)] by blast
  moreover have "quiet es1" using quiet_start_relay [of cli env] started(1) by simp
  moreover have "me_euid env = 0" using start_relay_ok [OF started(1)] by simp
  ultimately show ?thesis using started(4) by auto
qed simp

lemma sample_main: "\<exists>tr st c. main P man_creds sample_cli sample_env = Ret (tr, Inr (st, c)) \<and> \<not> quiet tr"
proof -
  obtain es relay where s: "start_relay sample_cli sample_env = (es, Inr relay)" and f: "fds_fit relay"
    using sample_start by blast
  obtain es2 c where "drop_privileges man_creds (Inr (Some nobody)) ''nobody'' root_cred = (es2, Inr (), c)"
    using sample_drop by blast
  then have l: "leave_root man_creds sample_cli sample_env = (es2, Inr c)"
    by (simp add: leave_root_def sample_cli_def sample_env_def)
  have "me_iters sample_env = [idle_pass]" by (simp add: sample_env_def)
  then show ?thesis using f
    by (simp add: main_def s l run_def iteration_def build_fd_set_fit run_init_def idle_pass_def Let_def)
qed

theorem no_traffic_before_drop_witness:
  "\<exists>tr r. main rfc_pnet man_creds sample_cli sample_env = Ret (tr, r) \<and> \<not> quiet tr \<and>
     (\<exists>user pre msg post. tr = pre @ drop_events ''nobody'' user @ [Println msg] @ post \<and> quiet pre)"
proof -
  obtain tr r where m: "main rfc_pnet man_creds sample_cli sample_env = Ret (tr, r)" "\<not> quiet tr"
    using sample_main by blast
  have "\<not> cli_no_drop sample_cli" "cli_user sample_cli = ''nobody''" by (simp_all add: sample_cli_def)
  with no_traffic_before_drop [OF m(1)] m show ?thesis by metis
qed

text \<open>C9: the relay loop runs under the credentials of the unprivileged user: a program that is running
  and was started without \<open>--no-drop\<close> has the effective uid of the user of the command line and, whatever
  \<open>setgroups\<close>, \<open>setgid\<close>, \<open>setuid\<close> and \<open>seteuid\<close> calls it might make from then on, never again root among its user
  ids nor \<open>CAP_SETUID\<close>. If it was started with \<open>CAP_SETUID\<close> and \<open>CAP_SETGID\<close>, as root is, all its ids are those
  of the user's entry.\<close>

theorem relay_runs_unprivileged:
  assumes "linux_creds os view" and "\<not> cli_no_drop cli" and "main P os cli env = Ret (tr, Inr (st, c))"
  shows "\<exists>user. me_user env = Inr (Some user) \<and> euid (view c) = pw_uid user \<and>
    (\<forall>calls. 0 \<notin> uids (view (cred_ops os calls c)) \<and> \<not> cap_setuid (view (cred_ops os calls c))) \<and>
    (cap_setuid (view (me_creds env)) \<and> cap_setgid (view (me_creds env)) \<longrightarrow> dropped_to user (view c))"
  using main_drops [OF assms] unfolding no_root_def by blast

theorem relay_runs_unprivileged_witness:
  "\<exists>tr st c. main rfc_pnet man_creds sample_cli sample_env = Ret (tr, Inr (st, c)) \<and> suid c = 65534 \<and>
     0 \<notin> uids (cred_ops man_creds [OpSeteuid 0] c)"
proof -
  obtain tr st c where m: "main rfc_pnet man_creds sample_cli sample_env = Ret (tr, Inr (st, c))"
    using sample_main by blast
  have "cap_setuid (me_creds sample_env)" "cap_setgid (me_creds sample_env)" "\<not> cli_no_drop sample_cli"
    "me_user sample_env = Inr (Some nobody)"
    by (simp_all add: sample_env_def sample_cli_def root_cred_def)
  with relay_runs_unprivileged [OF man.linux_creds_axioms _ m] have "dropped_to nobody c"
    "0 \<notin> uids (cred_ops man_creds [OpSeteuid 0] c)" by (metis sum.inject(2) option.inject)+
  with m show ?thesis unfolding dropped_to_def by (auto simp: nobody_def)
qed

end
