(* ===== verification/Bcr_Cli.thy ===== *)
theory Bcr_Cli
  imports Bcr_Main
begin

text \<open>
  The command line of \<open>src/src/main.rs\<close>. The attributes of \<open>struct Cli\<close> are data (\<open>cli_args\<close>).
  \<open>Cli::parse\<close>, which the \<open>clap\<close> crate generates from them, is a parameter: a function from the
  specifications and the arguments to the record, to a text for standard output (\<open>--help\<close>, \<open>--version\<close>)
  or to an error. The locale \<open>clap_parser\<close> states the two things that the program's safety relies on.
  \<open>simple_clap\<close>, a small parser for separate arguments (\<open>-o eth1\<close>, \<open>--output eth1\<close>), interprets it. \<open>program\<close>
  is the whole program from its arguments on.
\<close>

section \<open>Definitions\<close>

text \<open>The type of a field decides what clap does with the option: \<open>bool\<close> is a flag, \<open>Vec\<close> collects all
  values, everything else has one value; \<open>u32\<close> fields have a numeric value parser.\<close>

datatype arg_action = SetTrue | SetOne | Append

record arg_spec =
  arg_id :: string
  arg_short :: "char option"
  arg_long :: string
  arg_act :: arg_action
  arg_required :: bool
  arg_many :: bool
  arg_default :: "string option"
  arg_u32 :: bool

definition arg :: "string \<Rightarrow> char option \<Rightarrow> string \<Rightarrow> arg_action \<Rightarrow> arg_spec" where
  "arg i short long act = \<lparr>arg_id = i, arg_short = short, arg_long = long, arg_act = act,
     arg_required = False, arg_many = False, arg_default = None, arg_u32 = False\<rparr>"

definition arg_input :: arg_spec where
  "arg_input = (arg ''input'' (Some (CHR ''i'')) ''input'' Append)\<lparr>arg_required := True, arg_many := True\<rparr>"

definition arg_output :: arg_spec where
  "arg_output = (arg ''output'' (Some (CHR ''o'')) ''output'' Append)\<lparr>arg_required := True\<rparr>"

definition arg_config :: arg_spec where
  "arg_config = arg ''config'' (Some (CHR ''c'')) ''config'' SetOne"

definition arg_user :: arg_spec where
  "arg_user = (arg ''user'' (Some (CHR ''u'')) ''user'' SetOne)\<lparr>arg_default := Some ''nobody''\<rparr>"

definition arg_no_drop :: arg_spec where
  "arg_no_drop = arg ''no_drop'' None ''no-drop'' SetTrue"

definition arg_rate_limit :: arg_spec where
  "arg_rate_limit = (arg ''rate_limit'' None ''rate-limit'' SetOne)\<lparr>arg_default := Some ''0'', arg_u32 := True\<rparr>"

definition arg_rate_burst :: arg_spec where
  "arg_rate_burst = (arg ''rate_burst'' None ''rate-burst'' SetOne)\<lparr>arg_u32 := True\<rparr>"

definition arg_verbose :: arg_spec where
  "arg_verbose = arg ''verbose'' (Some (CHR ''v'')) ''verbose'' SetTrue"

definition cli_args :: "arg_spec list" where
  "cli_args = [arg_input, arg_output, arg_config, arg_user, arg_no_drop, arg_rate_limit, arg_rate_burst, arg_verbose]"

datatype cli_outcome = Parsed Cli | Shown string | Usage_error string

type_synonym clap = "arg_spec list \<Rightarrow> string list \<Rightarrow> cli_outcome"

text \<open>How the program ends, if it does: with an exit status, with the error that \<open>main\<close> returns (which the
  runtime prints, with status 1), or it is still in the relay loop after the given passes.\<close>

datatype 'c program_end = Exit nat | Failed anyhow | Running RunState 'c

text \<open>\<open>Cli::parse\<close> prints help and version on standard output and exits with status 0; for arguments that it
  refuses it prints a message on standard error and exits with status 2.\<close>

definition program ::
  "pnet \<Rightarrow> 'c creds_os \<Rightarrow> clap \<Rightarrow> string list \<Rightarrow> 'c MainEnv \<Rightarrow> (event list \<times> 'c program_end) outcome" where
  "program P os clap argv env =
     (case clap cli_args argv of
        Shown help \<Rightarrow> Ret ([Println help], Exit 0)
      | Usage_error message \<Rightarrow> Ret ([Eprintln message], Exit 2)
      | Parsed cli \<Rightarrow> seq (main P os cli env) (\<lambda>(es, r).
          Ret (es, case r of Inl e \<Rightarrow> Failed e | Inr (st, c) \<Rightarrow> Running st c)))"

section \<open>The contract of clap\<close>

text \<open>An argument that may give the option: it starts with one dash and contains its short letter, or it
  starts with its long name.\<close>

definition gives :: "arg_spec \<Rightarrow> string \<Rightarrow> bool" where
  "gives a s \<longleftrightarrow>
     (case arg_short a of None \<Rightarrow> False | Some c \<Rightarrow> take 1 s = ''-'' \<and> take 2 s \<noteq> ''--'' \<and> c \<in> set s) \<or>
     take (2 + length (arg_long a)) s = ''--'' @ arg_long a"

text \<open>A flag that no argument gives is false, and an option with a default that no argument gives has it.\<close>

locale clap_parser =
  fixes clap :: clap
  assumes flag_absent: "clap cli_args argv = Parsed cli \<Longrightarrow>
      \<not> list_ex (gives arg_no_drop) (tl argv) \<Longrightarrow> \<not> cli_no_drop cli"
    and user_absent: "clap cli_args argv = Parsed cli \<Longrightarrow>
      \<not> list_ex (gives arg_user) (tl argv) \<Longrightarrow> arg_default arg_user = Some (cli_user cli)"

section \<open>A small parser that meets it\<close>

definition is_name :: "arg_spec \<Rightarrow> string \<Rightarrow> bool" where
  "is_name a t \<longleftrightarrow> t = ''--'' @ arg_long a \<or>
     (case arg_short a of None \<Rightarrow> False | Some c \<Rightarrow> c \<noteq> CHR ''-'' \<and> t = [CHR ''-'', c])"

fun occurrences :: "arg_spec list \<Rightarrow> string list \<Rightarrow> (string \<times> string) list option" where
  "occurrences specs [] = Some []"
| "occurrences specs [t] =
     (case find (\<lambda>a. is_name a t) specs of
        None \<Rightarrow> None
      | Some a \<Rightarrow> if arg_act a = SetTrue then Some [(arg_id a, ''true'')] else None)"
| "occurrences specs (t # v # ts) =
     (case find (\<lambda>a. is_name a t) specs of
        None \<Rightarrow> None
      | Some a \<Rightarrow>
          if arg_act a = SetTrue then map_option (Cons (arg_id a, ''true'')) (occurrences specs (v # ts))
          else map_option (Cons (arg_id a, v)) (occurrences specs ts))"

definition given :: "(string \<times> string) list \<Rightarrow> arg_spec \<Rightarrow> string list" where
  "given occs a = map snd (filter (\<lambda>(j, v). j = arg_id a) occs)"

definition valid_occurrences :: "arg_spec list \<Rightarrow> (string \<times> string) list \<Rightarrow> bool" where
  "valid_occurrences specs occs \<longleftrightarrow> list_all (\<lambda>a.
     (arg_required a \<longrightarrow> given occs a \<noteq> []) \<and>
     (arg_act a \<noteq> Append \<longrightarrow> length (given occs a) \<le> 1) \<and>
     (arg_u32 a \<longrightarrow> list_all (\<lambda>v. \<not> isl (parse_u32 v)) (given occs a))) specs"

definition the_value :: "(string \<times> string) list \<Rightarrow> arg_spec \<Rightarrow> string option" where
  "the_value occs a = (case given occs a of [] \<Rightarrow> arg_default a | v # _ \<Rightarrow> Some v)"

definition number :: "string \<Rightarrow> u32" where
  "number s = (case parse_u32 s of Inl _ \<Rightarrow> 0 | Inr n \<Rightarrow> n)"

definition simple_cli :: "(string \<times> string) list \<Rightarrow> Cli" where
  "simple_cli occs = \<lparr>cli_input = given occs arg_input, cli_output = given occs arg_output,
     cli_config = the_value occs arg_config,
     cli_user = (case the_value occs arg_user of None \<Rightarrow> [] | Some u \<Rightarrow> u),
     cli_no_drop = (given occs arg_no_drop \<noteq> []),
     cli_rate_limit = (case the_value occs arg_rate_limit of None \<Rightarrow> 0 | Some v \<Rightarrow> number v),
     cli_rate_burst = map_option number (the_value occs arg_rate_burst),
     cli_verbose = (given occs arg_verbose \<noteq> [])\<rparr>"

definition simple_clap :: clap where
  "simple_clap specs argv =
     (if list_ex (\<lambda>t. t = ''-h'' \<or> t = ''--help'' \<or> t = ''-V'' \<or> t = ''--version'') (tl argv) then Shown ''bcr''
      else case occurrences specs (tl argv) of
        None \<Rightarrow> Usage_error ''error: unexpected argument''
      | Some occs \<Rightarrow> if valid_occurrences specs occs then Parsed (simple_cli occs)
                     else Usage_error ''error: invalid arguments'')"

lemma is_name_gives: "is_name a t \<Longrightarrow> gives a t"
  by (auto simp: is_name_def gives_def split: option.splits)

lemma find_is_name: "find (\<lambda>a. is_name a t) specs = Some a \<Longrightarrow> a \<in> set specs \<and> gives a t"
  by (auto simp: find_Some_iff is_name_gives)

lemma occurrences_given:
  "occurrences specs ts = Some occs \<Longrightarrow> (i, v) \<in> set occs \<Longrightarrow>
   \<exists>a\<in>set specs. arg_id a = i \<and> list_ex (gives a) ts"
proof (induction specs ts arbitrary: occs rule: occurrences.induct)
  case (3 specs t v ts)
  then show ?case by (fastforce split: option.splits if_splits dest: find_is_name)
qed (auto split: option.splits if_splits dest: find_is_name)

section \<open>The arguments of bcr\<close>

lemma arg_ids: "distinct (map arg_id cli_args)"
  by code_simp

lemma in_cli_args [simp]: "arg_user \<in> set cli_args" "arg_no_drop \<in> set cli_args"
  by (simp_all add: cli_args_def)

lemmas arg_defs = arg_input_def arg_output_def arg_config_def arg_user_def arg_no_drop_def
  arg_rate_limit_def arg_rate_burst_def arg_verbose_def arg_def

lemma default_user: "arg_default arg_user = Some ''nobody''"
  by (simp add: arg_defs)

lemma parse_u32_zero: "parse_u32 ''0'' = Inr 0"
  by (simp add: parse_u32_def parse_uint_def to_digit_def byte_def)

lemma not_given:
  assumes "occurrences cli_args ts = Some occs" and "a \<in> set cli_args" and "\<not> list_ex (gives a) ts"
  shows "given occs a = []"
proof (rule ccontr)
  assume "given occs a \<noteq> []"
  then obtain v where "(arg_id a, v) \<in> set occs" by (auto simp: given_def filter_empty_conv)
  from occurrences_given [OF assms(1) this] obtain b where "b \<in> set cli_args" "arg_id b = arg_id a"
    "list_ex (gives b) ts" by blast
  with arg_ids assms(2,3) show False by (auto dest: inj_onD simp: distinct_map)
qed

lemma simple_clap_Parsed: "simple_clap specs argv = Parsed cli \<Longrightarrow>
    \<exists>occs. occurrences specs (tl argv) = Some occs \<and> cli = simple_cli occs"
  by (auto simp: simple_clap_def split: option.splits if_splits)

interpretation simple: clap_parser simple_clap
proof
  fix argv cli
  assume "simple_clap cli_args argv = Parsed cli"
  then obtain occs where o: "occurrences cli_args (tl argv) = Some occs" "cli = simple_cli occs"
    using simple_clap_Parsed by blast
  show "\<not> cli_no_drop cli" if "\<not> list_ex (gives arg_no_drop) (tl argv)"
    using not_given [OF o(1) _ that] by (simp add: o(2) simple_cli_def)
  show "arg_default arg_user = Some (cli_user cli)" if "\<not> list_ex (gives arg_user) (tl argv)"
    using not_given [OF o(1) _ that] by (simp add: o(2) simple_cli_def the_value_def default_user)
qed

section \<open>Properties\<close>

lemma program_Running:
  assumes "program P os clap argv env = Ret (tr, Running st c)"
  obtains cli where "clap cli_args argv = Parsed cli" "main P os cli env = Ret (tr, Inr (st, c))"
proof (cases "clap cli_args argv")
  case (Parsed cli)
  with assms obtain r where m: "main P os cli env = Ret (tr, r)"
    and r: "Running st c = (case r of Inl e \<Rightarrow> Failed e | Inr (st, c) \<Rightarrow> Running st c)"
    by (auto simp: program_def seq_Ret_iff)
  from r have "r = Inr (st, c)" by (cases r) auto
  with m Parsed show thesis by (intro that) simp_all
qed (use assms in \<open>simp_all add: program_def\<close>)

definition sample_argv :: "string list" where
  "sample_argv = [''bcr'', ''-i'', ''eth1'', ''--output'', ''eth1'']"

lemma sample_cli_parse: "simple_clap cli_args sample_argv = Parsed sample_cli"
proof -
  let ?occs = "[(''input'', ''eth1''), (''output'', ''eth1'')]"
  have "occurrences cli_args (tl sample_argv) = Some ?occs"
    by (simp add: sample_argv_def cli_args_def arg_defs is_name_def)
  moreover have "valid_occurrences cli_args ?occs"
    by (simp add: valid_occurrences_def cli_args_def arg_defs given_def)
  moreover have "simple_cli ?occs = sample_cli"
    using parse_u32_zero
    by (simp add: simple_cli_def given_def the_value_def number_def arg_defs sample_cli_def)
  moreover have "\<not> list_ex (\<lambda>t. t = ''-h'' \<or> t = ''--help'' \<or> t = ''-V'' \<or> t = ''--version'') (tl sample_argv)"
    by (simp add: sample_argv_def)
  ultimately show ?thesis by (simp add: simple_clap_def)
qed

text \<open>C24: without \<open>--no-drop\<close> among its arguments, the program that is running has given up root for good: it
  has the effective uid of the user that it looked up (\<open>nobody\<close>, unless an argument gives one), and no
  sequence of \<open>setgroups\<close>, \<open>setgid\<close>, \<open>setuid\<close> and \<open>seteuid\<close> calls brings back a user id 0 or \<open>CAP_SETUID\<close>. If it was
  started with \<open>CAP_SETUID\<close> and \<open>CAP_SETGID\<close>, all its ids are those of the user's entry.\<close>

theorem unprivileged_by_default:
  assumes "linux_creds os view" and "clap_parser clap"
    and "\<not> list_ex (gives arg_no_drop) (tl argv)"
    and "program P os clap argv env = Ret (tr, Running st c)"
  shows "\<exists>user. me_user env = Inr (Some user) \<and> euid (view c) = pw_uid user \<and>
    (\<forall>calls. 0 \<notin> uids (view (cred_ops os calls c)) \<and> \<not> cap_setuid (view (cred_ops os calls c))) \<and>
    (cap_setuid (view (me_creds env)) \<and> cap_setgid (view (me_creds env)) \<longrightarrow> dropped_to user (view c)) \<and>
    (list_ex (gives arg_user) (tl argv) \<or> Getpwnam ''nobody'' \<in> set tr)"
proof -
  from assms(4) obtain cli where cli: "clap cli_args argv = Parsed cli"
    and m: "main P os cli env = Ret (tr, Inr (st, c))" by (rule program_Running)
  have "\<not> cli_no_drop cli" using clap_parser.flag_absent [OF assms(2) cli assms(3)] .
  note d = main_drops [OF assms(1) this m]
  have "list_ex (gives arg_user) (tl argv) \<or> cli_user cli = ''nobody''"
    using clap_parser.user_absent [OF assms(2) cli] default_user by (metis option.inject)
  with d show ?thesis unfolding no_root_def by metis
qed

theorem unprivileged_by_default_witness:
  "\<exists>tr st c. program rfc_pnet man_creds simple_clap sample_argv sample_env = Ret (tr, Running st c) \<and>
     ruid c = 65534 \<and> Getpwnam ''nobody'' \<in> set tr"
proof -
  obtain tr st c where "main rfc_pnet man_creds sample_cli sample_env = Ret (tr, Inr (st, c))"
    using sample_main by blast
  then have p: "program rfc_pnet man_creds simple_clap sample_argv sample_env = Ret (tr, Running st c)"
    by (simp add: program_def sample_cli_parse)
  have "cap_setuid (me_creds sample_env)" "cap_setgid (me_creds sample_env)" "me_user sample_env = Inr (Some nobody)"
    by (simp_all add: sample_env_def root_cred_def)
  moreover have n: "\<not> list_ex (gives arg_no_drop) (tl sample_argv)" "\<not> list_ex (gives arg_user) (tl sample_argv)"
    by (simp_all add: sample_argv_def gives_def arg_defs)
  ultimately have "dropped_to nobody c \<and> Getpwnam ''nobody'' \<in> set tr"
    using unprivileged_by_default [OF man.linux_creds_axioms simple.clap_parser_axioms n(1) p]
    by (metis sum.inject(2) option.inject)
  with p show ?thesis unfolding dropped_to_def by (auto simp: nobody_def)
qed

end
