(* ===== verification/Bcr_Bucket.thy ===== *)
theory Bcr_Bucket
  imports Bcr_Ratelimit
begin

text \<open>
  An abstract specification of the rate limiter of \<open>src/src/ratelimit.rs\<close>: a token bucket that counts in
  whole tokens and whole seconds, without any floating point. The limiter refines it: where the clock
  is read at whole seconds after the start, the \<open>f64\<close> arithmetic of \<open>allow\<close> makes exactly the decisions
  of the integer bucket, for every rate and burst and any length of time.

  The locale \<open>step_refinement\<close> is the simulation of one step function by another.
\<close>

section \<open>The integer bucket\<close>

record Bucket =
  bk_rate :: nat
  bk_burst :: nat
  bk_tokens :: nat
  bk_last :: nat

definition bucket_new :: "nat \<Rightarrow> nat \<Rightarrow> Bucket" where
  "bucket_new rate burst =
     \<lparr>bk_rate = rate, bk_burst = max burst 1, bk_tokens = max burst 1, bk_last = 0\<rparr>"

definition bucket_allow :: "nat \<Rightarrow> Bucket \<Rightarrow> bool \<times> Bucket" where
  "bucket_allow s b =
     (let t = min (bk_tokens b + (s - bk_last b) * bk_rate b) (bk_burst b)
      in (1 \<le> t, b\<lparr>bk_last := s, bk_tokens := t - 1\<rparr>))"

text \<open>The reading of the clock \<open>s\<close> seconds after the start.\<close>

definition clock :: "nat \<Rightarrow> nat \<Rightarrow> nat" where
  "clock t0 s = t0 + 1000000000 * s"

section \<open>Simulation\<close>

locale step_refinement =
  fixes step :: "'e \<Rightarrow> 's \<Rightarrow> bool \<times> 's"
    and astep :: "'f \<Rightarrow> 'a \<Rightarrow> bool \<times> 'a"
    and ev :: "'f \<Rightarrow> 'e"
    and sim :: "'s \<Rightarrow> 'a \<Rightarrow> bool"
  assumes sim_step: "sim s a \<Longrightarrow>
    fst (step (ev f) s) = fst (astep f a) \<and> sim (snd (step (ev f) s)) (snd (astep f a))"
begin

lemma sim_run:
  "sim s a \<Longrightarrow> fst (run_steps step (map ev fs) s) = fst (run_steps astep fs a) \<and>
    sim (snd (run_steps step (map ev fs) s)) (snd (run_steps astep fs a))"
proof (induction fs arbitrary: s a)
  case (Cons f fs)
  from sim_step [OF Cons.prems, of f] Cons.IH [of "snd (step (ev f) s)" "snd (astep f a)"]
  show ?case by (simp add: Let_def split_beta)
qed simp

end

section \<open>The arithmetic is exact\<close>

definition bucket_sim :: "nat \<Rightarrow> RateLimiter \<Rightarrow> Bucket \<Rightarrow> bool" where
  "bucket_sim t0 rl b \<longleftrightarrow> rl_rate rl = of_nat (bk_rate b) \<and> rl_burst rl = of_nat (bk_burst b) \<and>
     rl_tokens rl = of_nat (bk_tokens b) \<and> rl_last rl = clock t0 (bk_last b) \<and>
     bk_burst b \<le> 2 ^ 32 \<and> bk_tokens b \<le> bk_burst b"

lemma f64_round_nat: "n \<le> 2 ^ 53 \<Longrightarrow> f64_round (of_nat n) = of_nat n"
  using f64_round_int [of "int n"] by simp

lemma f64_round_half: "0 \<le> x \<Longrightarrow> x / 2 \<le> f64_round x"
proof -
  assume x: "0 \<le> x"
  then have "f64_eps * x \<le> 1 / 2 * x" using f64_eps_bounds by (intro mult_right_mono) auto
  with f64.rnd_error [OF x] show ?thesis by (simp add: abs_le_iff)
qed

lemma as_secs_whole: "as_secs_f64 (1000000000 * d) = f64_round (f64_round (of_nat d))"
  by (simp add: as_secs_f64_def f64_add_def f64_div_def)

lemma whole_refill:
  "refill (clock t0 s) (rl\<lparr>rl_last := clock t0 l\<rparr>) =
     f64_round (f64_round (f64_round (of_nat (s - l))) * rl_rate rl)"
proof -
  have "duration_since (clock t0 s) (clock t0 l) = 1000000000 * (s - l)"
    by (simp add: duration_since_def clock_def diff_mult_distrib2)
  then show ?thesis by (simp add: refill_def f64_mul_def as_secs_whole)
qed

text \<open>Either every intermediate result is an integer that \<open>f64\<close> holds exactly, or the refill is so
  large that it fills the bucket, however it is rounded.\<close>

lemma level_exact:
  assumes "n \<le> b" "b \<le> 2 ^ 32"
  shows "min (f64_round (of_nat n + f64_round (f64_round (f64_round (of_nat d)) * of_nat r))) (of_nat b) =
    (of_nat (min (n + d * r) b) :: rat)"
proof (cases "r = 0 \<or> d * r \<le> 2 ^ 52")
  case True
  show ?thesis
  proof (cases "r = 0")
    case True
    have "n \<le> 2 ^ 53" using assms by simp
    then show ?thesis using assms True f64_round_nat [of n] by (simp add: min_def)
  next
    case False
    then have "d \<le> d * r" by simp
    moreover have dr: "d * r \<le> 4503599627370496" using True False by simp
    moreover have "n \<le> 4294967296" using assms by simp
    ultimately have "d \<le> 9007199254740992" "d * r \<le> 9007199254740992" "n + d * r \<le> 9007199254740992"
      by linarith+
    then have d: "d \<le> 2 ^ 53" "d * r \<le> 2 ^ 53" "n + d * r \<le> 2 ^ 53" by simp_all
    have "f64_round (of_nat n + f64_round (f64_round (f64_round (of_nat d)) * of_nat r)) = of_nat (n + d * r)"
      using f64_round_nat [OF d(1)] f64_round_nat [OF d(2)] f64_round_nat [OF d(3)] by simp
    then show ?thesis by (simp only: of_nat_min)
  qed
next
  case False
  let ?r = "of_nat r :: rat"
  define e where "e = f64_round (f64_round (of_nat d))"
  have "(of_nat d :: rat) / 2 \<le> f64_round (of_nat d)" by (rule f64_round_half) simp
  moreover have "f64_round (of_nat d) / 2 \<le> e" unfolding e_def by (intro f64_round_half f64.rnd_nonneg) simp
  ultimately have "of_nat d / 4 \<le> e" by linarith
  then have er: "of_nat d / 4 * ?r \<le> e * ?r" by (intro mult_right_mono) auto
  have "0 \<le> e" unfolding e_def by (intro f64.rnd_nonneg) simp
  then have pos: "0 \<le> e * ?r" by simp
  have "(of_nat (2 ^ 52) :: rat) \<le> of_nat (d * r)" using False by (intro of_nat_mono) simp
  then have "(2 ^ 52 :: rat) / 4 \<le> of_nat d / 4 * ?r" by simp
  from order_trans [OF this er] have "2 ^ 50 \<le> e * ?r" by simp
  with f64_round_half [OF pos] have f: "2 ^ 49 \<le> f64_round (e * ?r)" by simp
  define x where "x = of_nat n + f64_round (e * ?r)"
  have x: "2 ^ 49 \<le> x" using f by (simp add: x_def add_increasing)
  with f64_round_half [of x] have "2 ^ 48 \<le> f64_round x" by simp
  moreover have "(of_nat b :: rat) \<le> of_nat (2 ^ 32)" using assms(2) by (rule of_nat_mono)
  ultimately have "of_nat b \<le> f64_round x" by simp
  moreover have "b \<le> n + d * r" using False assms(2) by simp
  ultimately show ?thesis by (simp add: x_def e_def min_absorb2)
qed

interpretation integer_bucket: step_refinement allow bucket_allow "clock t0" "bucket_sim t0" for t0
proof
  fix rl b s
  assume sim: "bucket_sim t0 rl b"
  define t where "t = min (bk_tokens b + (s - bk_last b) * bk_rate b) (bk_burst b)"
  have l: "rl\<lparr>rl_last := clock t0 (bk_last b)\<rparr> = rl" using sim by (simp add: bucket_sim_def)
  have level: "min (f64_round (rl_tokens rl + refill (clock t0 s) rl)) (rl_burst rl) = of_nat t"
    using sim level_exact [of "bk_tokens b" "bk_burst b" "s - bk_last b" "bk_rate b"]
      whole_refill [of t0 s "bk_last b" rl, unfolded l] by (simp add: bucket_sim_def t_def)
  have "bk_burst b \<le> 2 ^ 32" using sim by (simp add: bucket_sim_def)
  then have b: "t \<le> 2 ^ 32" unfolding t_def by (rule min.coboundedI2)
  have one: "1 \<le> (of_nat t :: rat) \<longleftrightarrow> 1 \<le> t" using of_nat_le_iff [of 1 t, where 'a = rat] by simp
  have "(if 1 \<le> t then f64_round (of_nat t - 1) else of_nat t :: rat) = of_nat (t - 1)"
    using f64_round_nat [of "t - 1"] b by (cases t) simp_all
  then have "allow (clock t0 s) rl = (1 \<le> t, rl\<lparr>rl_last := clock t0 s, rl_tokens := of_nat (t - 1)\<rparr>)"
    unfolding allow_eq level Let_def one by simp
  moreover have "bucket_allow s b = (1 \<le> t, b\<lparr>bk_last := s, bk_tokens := t - 1\<rparr>)"
    by (simp add: bucket_allow_def t_def Let_def)
  moreover have "t - 1 \<le> bk_burst b" by (simp add: t_def)
  ultimately show "fst (allow (clock t0 s) rl) = fst (bucket_allow s b) \<and>
      bucket_sim t0 (snd (allow (clock t0 s) rl)) (snd (bucket_allow s b))"
    using sim by (simp add: bucket_sim_def)
qed

lemma bucket_sim_new: "bucket_sim t0 (RateLimiter_new rate burst t0) (bucket_new (unat rate) (unat burst))"
proof -
  have "unat (max burst 1) = max (unat burst) 1" by (simp add: max_def word_le_nat_alt)
  with unat_u32 [of "max burst 1"] show ?thesis
    by (simp add: bucket_sim_def RateLimiter_new_def bucket_new_def u32_f64_def clock_def Let_def)
qed

section \<open>Properties\<close>

text \<open>C14: the floating-point limiter refines an integer token bucket. Read at whole seconds after its
  creation, in any order and over any time, it decides exactly as a bucket of \<open>max burst 1\<close> whole
  tokens that gains \<open>rate\<close> tokens each second, for every 32-bit rate and burst: rounding never changes
  a decision, not even where a product is too large for the 53 bits of the significand.\<close>

theorem limiter_refines_bucket:
  "fst (run_steps allow (map (clock t0) seconds) (RateLimiter_new rate burst t0)) =
   fst (run_steps bucket_allow seconds (bucket_new (unat rate) (unat burst)))"
  using integer_bucket.sim_run [OF bucket_sim_new] by simp

end
