(* ===== verification/Bcr_Reach.thy ===== *)
theory Bcr_Reach
  imports Bcr_Relay
begin

text \<open>
  The relay loop as a transition system. A step is one pass of the loop (idle after the
  timeout of \<open>select\<close>, or serving the ready sockets); \<open>reachable\<close> collects the events of the
  steps taken since the start. \<open>run_reachable\<close> connects the loop to it; the invariants are
  proved by induction on \<open>reachable\<close>. The second half reads single sends off the
  specification of \<open>Bcr_Relay\<close> and counts them.
\<close>

section \<open>Definitions\<close>

inductive relay_step :: "pnet \<Rightarrow> RunState \<Rightarrow> event list \<Rightarrow> RunState \<Rightarrow> bool" for P where
  idle: "build_fd_set (input_sockets (self st)) [] = Ret fds \<Longrightarrow> relay_step P st [Select fds 3] st"
| serve: "build_fd_set (input_sockets (self st)) [] = Ret fds \<Longrightarrow>
    handle_inputs P env ready 0 (input_sockets (self st)) st = Ret (es, st') \<Longrightarrow>
    relay_step P st (Select fds 3 # es) st'"

inductive_cases relay_stepE: "relay_step P st es st'"

inductive reachable :: "pnet \<Rightarrow> Relay \<Rightarrow> event list \<Rightarrow> RunState \<Rightarrow> bool" for P relay where
  start: "reachable P relay [] (run_init relay)"
| step: "reachable P relay tr st \<Longrightarrow> relay_step P st es st' \<Longrightarrow> reachable P relay (tr @ es) st'"

text \<open>The part of the state that the loop never changes.\<close>

definition same_setup :: "Relay \<Rightarrow> Relay \<Rightarrow> bool" where
  "same_setup r r' \<longleftrightarrow> input_sockets r' = input_sockets r \<and> output_sockets r' = output_sockets r \<and>
     relay_filter r' = relay_filter r \<and> verbose r' = verbose r"

definition limiter_inv :: "RateLimiter option \<Rightarrow> bool" where
  "limiter_inv l = (case l of None \<Rightarrow> True | Some rl \<Rightarrow> limiter_ok rl)"

definition relay_inv :: "Relay \<Rightarrow> RunState \<Rightarrow> bool" where
  "relay_inv relay st \<longleftrightarrow> bufs_ok st \<and> same_setup relay (self st) \<and> limiter_inv (rate_limiter (self st))"

section \<open>The loop takes steps\<close>

lemma iteration_step:
  assumes "iteration P env st = Ret (es, Inr st')"
  shows "relay_step P st es st'"
proof -
  obtain fds where f: "build_fd_set (input_sockets (self st)) [] = Ret fds"
    using assms by (auto simp: iteration_def seq_Ret_iff)
  obtain n ready where e: "ie_select env = Inr (n, ready)"
    using assms by (cases "ie_select env") (auto simp: iteration_def seq_Ret_iff Let_def)
  show ?thesis
  proof (cases "n = 0")
    case True
    with assms have "es = [Select fds 3]" "st' = st" by (simp_all add: iteration_def f e Let_def)
    with relay_step.idle [OF f] show ?thesis by simp
  next
    case False
    with assms relay_step.serve [OF f] show ?thesis
      by (auto simp: iteration_def f e Let_def seq_Ret_iff)
  qed
qed

lemma run_loop_reachable:
  "run_loop P envs st = Ret (es, Inr st') \<Longrightarrow> reachable P relay tr st \<Longrightarrow>
   reachable P relay (tr @ es) st'"
proof (induction envs arbitrary: st tr es)
  case (Cons env envs)
  from Cons.prems(1) obtain es1 r where i: "iteration P env st = Ret (es1, r)"
    by (auto simp: seq_Ret_iff)
  with Cons.prems(1) obtain st1 where r: "r = Inr st1" by (cases r) auto
  with i Cons.prems(1) obtain es2 where 1: "iteration P env st = Ret (es1, Inr st1)"
    and 2: "run_loop P envs st1 = Ret (es2, Inr st')" and es: "es = es1 @ es2"
    by (auto simp: seq_Ret_iff)
  have "reachable P relay (tr @ es1) st1"
    using Cons.prems(2) iteration_step [OF 1] by (rule reachable.step)
  from Cons.IH [OF 2 this] show ?case by (simp add: es)
qed simp

lemma run_reachable: "run P envs relay = Ret (es, Inr st) \<Longrightarrow> reachable P relay es st"
  using run_loop_reachable [of P envs "run_init relay" es st relay "[]"]
  by (simp add: run_def reachable.start)

lemma run_Ret_fit: "run P envs relay = Ret x \<Longrightarrow> fds_fit relay \<or> envs = []"
  using run_loop_Ret_fit [of P envs "run_init relay" x] by (simp add: run_def run_init_def)

lemma run_Panic: "\<not> (fds_fit relay \<or> envs = []) \<Longrightarrow> run P envs relay = Panic"
  by (cases envs) (simp_all add: run_def run_init_def iteration_Panic)

section \<open>Invariants\<close>

lemma bufs_ok_init [simp]: "bufs_ok (run_init relay)"
  by (simp add: bufs_ok_def run_init_def)

lemma same_setup_trans: "same_setup a b \<Longrightarrow> same_setup b c \<Longrightarrow> same_setup a c"
  by (simp add: same_setup_def)

lemma admit_limiter_inv: "limiter_inv l \<Longrightarrow> limiter_inv (snd (admit l ts))"
  by (auto simp: limiter_inv_def admit_def split_beta intro: bucket.run_inv split: option.splits)

lemma implements_inv:
  assumes "relay_inv relay st" "implements st rqs es st'"
  shows "relay_inv relay st'"
proof -
  have "limiter_inv (rate_limiter (self st'))"
    using assms admit_limiter_inv [of "rate_limiter (self st)" "map fst rqs"]
    by (auto simp: relay_inv_def implements_def split_beta Let_def)
  with assms(1) implements_frame [OF assms(2)] show ?thesis
    by (simp add: relay_inv_def same_setup_def)
qed

lemma relay_inv_init: "limiter_inv (rate_limiter relay) \<Longrightarrow> relay_inv relay (run_init relay)"
  by (simp add: relay_inv_def same_setup_def) (simp add: run_init_def)

text \<open>What a step does, in terms of the requests of the packets it serves.\<close>

context pnet_layout
begin

lemma relay_step_implements:
  assumes "relay_step P st es st'" "bufs_ok st"
  shows "(\<exists>fds. es = [Select fds 3]) \<and> st' = st \<or>
    (\<exists>env ready. implements st (inputs_requests P (output_sockets (self st)) (relay_filter (self st))
       env ready 0 (input_sockets (self st))) es st')"
  using assms(1)
proof (rule relay_stepE)
  fix fds env ready es'
  assume "es = Select fds 3 # es'"
    "handle_inputs P env ready 0 (input_sockets (self st)) st = Ret (es', st')"
  with handle_inputs_implements [OF assms(2), of env ready 0 "input_sockets (self st)"]
  show ?thesis by (auto intro!: exI implements_Cons)
qed simp

lemma reachable_inv:
  assumes "reachable P relay tr st" "limiter_inv (rate_limiter relay)"
  shows "relay_inv relay st"
  using assms
proof induction
  case start
  then show ?case by (rule relay_inv_init)
next
  case (step tr st es st')
  then have inv: "relay_inv relay st" by simp
  then have "bufs_ok st" by (simp add: relay_inv_def)
  from relay_step_implements [OF step.hyps(2) this] inv show ?case
    by (auto intro: implements_inv)
qed

end

section \<open>Single sends\<close>

lemma granted_mem: "e \<in> set (granted oks rqs) \<Longrightarrow> \<exists>t es. (t, es) \<in> set rqs \<and> e \<in> set es"
  by (auto simp: granted_def split: if_splits dest: set_zip_rightD)

text \<open>The socket is reported as ready in the pass.\<close>

definition is_ready :: "IterEnv \<Rightarrow> PacketSocket \<Rightarrow> bool" where
  "is_ready env s \<longleftrightarrow>
     (case ie_select env of Inl e \<Rightarrow> False | Inr (n, ready) \<Rightarrow> n \<noteq> 0 \<and> ps_fd s \<in> set ready)"

text \<open>A send of packet \<open>d\<close>, received on \<open>in_sock\<close>, to \<open>out\<close>, under rule \<open>r\<close>.\<close>

definition relays ::
  "pnet \<Rightarrow> Relay \<Rightarrow> PacketSocket \<Rightarrow> buf \<Rightarrow> Rule \<Rightarrow> PacketSocket \<Rightarrow> event \<Rightarrow> bool" where
  "relays P relay in_sock d r out e \<longleftrightarrow>
     in_sock \<in> set (input_sockets relay) \<and> out \<in> set (output_sockets relay) \<and>
     \<not> marked d \<and> relayable d \<and> get_nat_rule (relay_filter relay) (info_of d) = Some r \<and>
     should_relay_to (be_ip d 16) (ps_ifname in_sock) (ps_ifname out) (ps_broadcast_addrs out) \<and>
     e = send out (copy_for P (rule_nat r) d out)"

lemma copies_mem_iff:
  "e \<in> set (copies P outs no ingress b) \<longleftrightarrow>
   (\<exists>out\<in>set outs. should_relay_to (be_ip b 16) ingress (ps_ifname out) (ps_broadcast_addrs out) \<and>
      e = send out (copy_for P no b out))"
  by (auto simp: copies_def targets_def)

lemma length_copies_le: "length (copies P outs no ingress b) \<le> length outs"
  by (simp add: copies_def targets_def)

lemma socket_requests_mem:
  "(t, es) \<in> set (socket_requests P outs flt env ready j s) \<Longrightarrow>
   \<exists>d r. ps_fd s \<in> set ready \<and> ie_recv env j = Inr d \<and> t = ie_now env j \<and> passes flt (received d) = Some r \<and>
     es = copies P outs (rule_nat r) (ps_ifname s) (received d)"
  by (auto simp: socket_requests_def split: sum.splits option.splits if_splits)

lemma inputs_requests_mem:
  "(t, es) \<in> set (inputs_requests P outs flt env ready j socks) \<Longrightarrow>
   \<exists>k<length socks. \<exists>d r. ps_fd (socks ! k) \<in> set ready \<and> ie_recv env (j + k) = Inr d \<and> t = ie_now env (j + k) \<and>
     passes flt (received d) = Some r \<and> es = copies P outs (rule_nat r) (ps_ifname (socks ! k)) (received d)"
proof (induction socks arbitrary: j)
  case (Cons s socks)
  show ?case
  proof (cases "(t, es) \<in> set (socket_requests P outs flt env ready j s)")
    case True
    from socket_requests_mem [OF this] show ?thesis by (intro exI [of _ 0]) auto
  next
    case False
    with Cons.prems have "(t, es) \<in> set (inputs_requests P outs flt env ready (Suc j) socks)" by simp
    from Cons.IH [OF this] obtain k where "k < length socks" "\<exists>d r. ps_fd (socks ! k) \<in> set ready \<and>
      ie_recv env (Suc j + k) = Inr d \<and> t = ie_now env (Suc j + k) \<and> passes flt (received d) = Some r \<and>
      es = copies P outs (rule_nat r) (ps_ifname (socks ! k)) (received d)" by blast
    then show ?thesis by (intro exI [of _ "Suc k"]) simp
  qed
qed simp

lemma passes_Some_iff:
  "passes flt b = Some r \<longleftrightarrow> \<not> marked b \<and> relayable b \<and> get_nat_rule flt (info_of b) = Some r"
  by (simp add: passes_def)

lemma requests_mem:
  "(t, es) \<in> set (requests P relay envs) \<Longrightarrow> e \<in> set es \<Longrightarrow>
   \<exists>env\<in>set envs. \<exists>i d r out. i < length (input_sockets relay) \<and> is_ready env (input_sockets relay ! i) \<and>
     ie_recv env i = Inr d \<and> t = ie_now env i \<and> relays P relay (input_sockets relay ! i) (received d) r out e"
proof (induction envs)
  case (Cons env envs)
  show ?case
  proof (cases "(t, es) \<in> set (requests P relay envs)")
    case True
    with Cons show ?thesis by fastforce
  next
    case False
    with Cons.prems(1) obtain n ready where s: "ie_select env = Inr (n, ready)" "n \<noteq> 0" and "(t, es) \<in> set (inputs_requests P (output_sockets relay)
        (relay_filter relay) env ready 0 (input_sockets relay))"
      by (cases "ie_select env") (auto split: if_splits)
    from inputs_requests_mem [OF this(3)] obtain k d r where k: "k < length (input_sockets relay)"
      "ps_fd (input_sockets relay ! k) \<in> set ready" "ie_recv env k = Inr d" "t = ie_now env k"
      "passes (relay_filter relay) (received d) = Some r"
      "es = copies P (output_sockets relay) (rule_nat r) (ps_ifname (input_sockets relay ! k)) (received d)"
      by auto
    with Cons.prems(2) obtain out where "relays P relay (input_sockets relay ! k) (received d) r out e"
      by (auto simp: copies_mem_iff passes_Some_iff relays_def)
    moreover have "is_ready env (input_sockets relay ! k)" using s k(2) by (simp add: is_ready_def)
    ultimately show ?thesis using k(1,3,4) by auto
  qed
qed simp

lemma requests_copies_le: "(t, es) \<in> set (requests P relay envs) \<Longrightarrow> length es \<le> length (output_sockets relay)"
proof (induction envs)
  case (Cons env envs)
  then show ?case
    by (auto split: sum.splits if_splits dest!: inputs_requests_mem intro: length_copies_le)
qed simp

lemma length_granted_le:
  "length oks = length rqs \<Longrightarrow> (\<And>t es. (t, es) \<in> set rqs \<Longrightarrow> length es \<le> n) \<Longrightarrow>
   length (granted oks rqs) \<le> n * count_list oks True"
proof (induction oks rqs rule: list_induct2)
  case (Cons ok oks rq rqs)
  obtain t es where "rq = (t, es)" by (cases rq)
  moreover have "length (granted oks rqs) \<le> n * count_list oks True"
    using Cons.prems by (intro Cons.IH) auto
  moreover have "length es \<le> n" using Cons.prems [of t es] calculation by simp
  ultimately show ?case by (auto simp: granted_def)
qed simp

section \<open>Nothing is lost to the buffer\<close>

text \<open>
  A datagram longer than the buffer is cut off, but the packet in it ends before the cut: the
  total length of an IPv4 packet is at most 65535.
\<close>

lemma received_relayable: "relayable (received d) \<longleftrightarrow> relayable d"
proof
  assume "relayable (received d)"
  from relayable_append [OF this, of "drop 65536 d"] show "relayable d" by (simp add: received_def)
next
  assume r: "relayable d"
  show "relayable (received d)"
  proof (cases "length d \<le> 65536")
    case True
    with r show ?thesis by (simp add: received_def)
  next
    case False
    then have l: "length (received d) = 65536" by (simp add: received_def)
    have nth: "received d ! i = d ! i" if "i < 65536" for i using that by (simp add: received_def)
    have h: "hdr_len (received d) = hdr_len d" by (simp add: hdr_len_def nth)
    have "hdr_len d \<le> 15 * 4" using and_15_bound [of "d ! 0"] by (simp add: hdr_len_def)
    with r l h unat_u16 [of "be16 d 2"] show ?thesis
      by (simp add: relayable_def header_ok_def nth be16_def be_ip_def)
  qed
qed

lemma received_info: "relayable d \<Longrightarrow> info_of (received d) = info_of d"
  using relayable_append [of "received d" "drop 65536 d"] received_relayable [of d]
  by (simp add: received_def)

section \<open>What is sent\<close>

lemma Sendto_in_sends: "Sendto f b a \<in> set es \<longleftrightarrow> Sendto f b a \<in> set (sends es)"
  by (simp add: sends_def)

lemma relays_Sendto:
  "relays P relay in_sock d r out (Sendto f b a) \<longleftrightarrow>
   in_sock \<in> set (input_sockets relay) \<and> out \<in> set (output_sockets relay) \<and>
   \<not> marked d \<and> relayable d \<and> get_nat_rule (relay_filter relay) (info_of d) = Some r \<and>
   should_relay_to (be_ip d 16) (ps_ifname in_sock) (ps_ifname out) (ps_broadcast_addrs out) \<and>
   f = ps_fd out \<and> b = copy_for P (rule_nat r) d out \<and> a = send_address out b"
  by (auto simp: relays_def send_def)

lemma copy_for_marked: "relayable b \<Longrightarrow> marked (copy_for P no b out) \<and> length (copy_for P no b out) = length b"
  unfolding copy_for_def by (auto simp: relayable_def intro: nat_bytes_marked)

lemma length_received: "length (received d) \<le> 65536"
  by (simp add: received_def)

lemma received_short [simp]: "length d \<le> 65536 \<Longrightarrow> received d = d"
  by (simp add: received_def)

lemma marked_no_requests: "ie_recv env j = Inr b \<Longrightarrow> length b \<le> 65536 \<Longrightarrow> marked b \<Longrightarrow>
    socket_requests P outs flt env ready j s = []"
  by (simp add: socket_requests_def passes_def)

context pnet_layout
begin

lemma reachable_sends:
  assumes "reachable P relay tr st" "limiter_inv (rate_limiter relay)"
  shows "Sendto f b a \<in> set tr \<Longrightarrow>
    marked b \<and> (\<exists>out\<in>set (output_sockets relay). f = ps_fd out \<and> a = send_address out b)"
  using assms
proof induction
  case (step tr st es st')
  from reachable_inv [OF step.hyps(1) step.prems(2)]
  have inv: "bufs_ok st" "same_setup relay (self st)" by (simp_all add: relay_inv_def)
  show ?case
  proof (cases "Sendto f b a \<in> set tr")
    case True
    with step show ?thesis by blast
  next
    case False
    with step.prems have e: "Sendto f b a \<in> set es" by simp
    with relay_step_implements [OF step.hyps(2) inv(1)] obtain env ready where
      "implements st (inputs_requests P (output_sockets (self st)) (relay_filter (self st)) env ready 0
         (input_sockets (self st))) es st'" by auto
    then obtain oks where "sends es = granted oks (inputs_requests P (output_sockets (self st))
        (relay_filter (self st)) env ready 0 (input_sockets (self st)))"
      by (auto simp: implements_def does_def split_beta Let_def)
    with e obtain t cs where "(t, cs) \<in> set (inputs_requests P (output_sockets (self st))
        (relay_filter (self st)) env ready 0 (input_sockets (self st)))" "Sendto f b a \<in> set cs"
      using granted_mem Sendto_in_sends by metis
    then obtain d no out where o: "relayable (received d)" "out \<in> set (output_sockets (self st))"
      "Sendto f b a = send out (copy_for P no (received d) out)"
      by (auto dest!: inputs_requests_mem simp: copies_mem_iff passes_Some_iff)
    with copy_for_marked [OF o(1), of P no out] inv(2) show ?thesis
      by (auto simp: send_def same_setup_def)
  qed
qed simp

lemma run_implements:
  assumes "fds_fit relay \<or> envs = []"
  shows "\<exists>es r. run P envs relay = Ret (es, r) \<and>
    sends es = granted (fst (admit (rate_limiter relay) (map fst (requests P relay envs))))
      (requests P relay envs) \<and>
    (\<not> verbose relay \<longrightarrow> (\<forall>e\<in>set es. \<not> is_print e)) \<and>
    (case r of Inl e \<Rightarrow> \<exists>env\<in>set envs. \<exists>err. ie_select env = Inl err \<and> e = [err]
     | Inr st' \<Rightarrow> self st' = relay\<lparr>rate_limiter :=
         snd (admit (rate_limiter relay) (map fst (requests P relay envs)))\<rparr>)"
proof -
  have s: "self (run_init relay) = relay" by (simp add: run_init_def)
  obtain es r where r: "run_loop P envs (run_init relay) = Ret (es, r)"
    "does (verbose relay) es
      (granted (fst (admit (rate_limiter relay) (map fst (requests P relay envs)))) (requests P relay envs))"
    "case r of Inl e \<Rightarrow> \<exists>env\<in>set envs. \<exists>err. ie_select env = Inl err \<and> e = [err]
     | Inr st' \<Rightarrow> implements (run_init relay) (requests P relay envs) es st'"
    using run_loop_implements [OF bufs_ok_init, of relay envs] assms unfolding s by blast
  have "case r of Inl e \<Rightarrow> \<exists>env\<in>set envs. \<exists>err. ie_select env = Inl err \<and> e = [err]
     | Inr st' \<Rightarrow> self st' = relay\<lparr>rate_limiter :=
         snd (admit (rate_limiter relay) (map fst (requests P relay envs)))\<rparr>"
    using r(3) by (auto simp: implements_def split_beta Let_def s split: sum.splits)
  with r show ?thesis by (auto simp: run_def does_def)
qed

lemma run_sends:
  "run P envs relay = Ret (es, r) \<Longrightarrow>
   sends es = granted (fst (admit (rate_limiter relay) (map fst (requests P relay envs)))) (requests P relay envs)"
  using run_implements [of relay envs] run_Ret_fit by fastforce

lemma run_Sendto:
  assumes "run P envs relay = Ret (es, r)" "Sendto f b a \<in> set es"
  shows "\<exists>env\<in>set envs. \<exists>i d r out. i < length (input_sockets relay) \<and> is_ready env (input_sockets relay ! i) \<and>
    ie_recv env i = Inr d \<and> relays P relay (input_sockets relay ! i) (received d) r out (Sendto f b a)"
proof -
  from assms have "Sendto f b a \<in> set (granted (fst (admit (rate_limiter relay)
      (map fst (requests P relay envs)))) (requests P relay envs))"
    using run_sends Sendto_in_sends by metis
  then show ?thesis by (blast dest: granted_mem requests_mem)
qed

end

text \<open>The destination of a copy.\<close>

lemma be_ip_copy_for:
  "relayable b \<Longrightarrow> be_ip (copy_for P no b out) 16 =
     final_dst no (nat_rewrite_target (be_ip b 16) (ps_broadcast_addrs out)) b"
  unfolding copy_for_def by (auto simp: relayable_def nat_bytes_header)

end
