(* ===== verification/Bcr_Network.thy ===== *)
theory Bcr_Network
  imports Bcr_Reach "HOL-Library.Multiset"
begin

text \<open>
  Several relays on common segments. A network is a family of nodes and a multiset of frames that
  wait to be received, each at a port of a node; the wiring says which ports hear what a node
  sends out of a descriptor, and is arbitrary: it may have cycles, several relays on a segment,
  and a node that hears itself. A step lets one node receive one waiting frame.

  The locale \<open>marking_node\<close> is the contract of a node: what it sends is marked, and it sends
  nothing for a marked frame. Under it no wiring can keep a frame alive. The relay meets the
  contract (\<open>sublocale\<close> of \<open>pnet_layout\<close>).
\<close>

section \<open>Definitions\<close>

type_synonym 'f delivery = "nat \<times> nat \<times> 'f"

type_synonym ('s, 'f) node_step = "'s \<Rightarrow> nat \<Rightarrow> 'f \<Rightarrow> (nat \<times> 'f) list \<Rightarrow> 's \<Rightarrow> bool"

type_synonym wiring = "nat \<Rightarrow> nat \<Rightarrow> (nat \<times> nat) list"

type_synonym ('s, 'f) net = "(nat \<Rightarrow> 's) \<times> 'f delivery multiset"

definition deliveries :: "wiring \<Rightarrow> nat \<Rightarrow> (nat \<times> 'f) list \<Rightarrow> 'f delivery list" where
  "deliveries wire n out = concat (map (\<lambda>(f, b). map (\<lambda>(n', j). (n', j, b)) (wire n f)) out)"

inductive net_step ::
  "('s, 'f) node_step \<Rightarrow> wiring \<Rightarrow> ('s, 'f) net \<Rightarrow> (nat \<times> 'f) list \<Rightarrow> ('s, 'f) net \<Rightarrow> bool"
  for node_step wire where
  receive: "node_step (nodes n) j d out s' \<Longrightarrow>
    net_step node_step wire (nodes, add_mset (n, j, d) M) out
      (nodes(n := s'), M + mset (deliveries wire n out))"

inductive_cases net_stepE: "net_step node_step wire c out c'"

inductive net_run ::
  "('s, 'f) node_step \<Rightarrow> wiring \<Rightarrow> ('s, 'f) net \<Rightarrow> (nat \<times> 'f) list \<Rightarrow> ('s, 'f) net \<Rightarrow> bool"
  for node_step wire where
  stop: "net_run node_step wire c [] c"
| more: "net_step node_step wire c out c' \<Longrightarrow> net_run node_step wire c' tr c'' \<Longrightarrow>
    net_run node_step wire c (out @ tr) c''"

section \<open>The contract of a node\<close>

locale marking_node =
  fixes node_step :: "('s, 'f) node_step"
    and ok :: "'s \<Rightarrow> bool"
    and is_marked :: "'f \<Rightarrow> bool"
    and fanout :: "'s \<Rightarrow> nat"
  assumes step_ok: "ok s \<Longrightarrow> node_step s j d out s' \<Longrightarrow> ok s' \<and> fanout s' = fanout s"
    and out_marked: "ok s \<Longrightarrow> node_step s j d out s' \<Longrightarrow> (f, b) \<in> set out \<Longrightarrow> is_marked b"
    and marked_silent: "ok s \<Longrightarrow> node_step s j d out s' \<Longrightarrow> is_marked d \<Longrightarrow> out = []"
    and out_bound: "ok s \<Longrightarrow> node_step s j d out s' \<Longrightarrow> length out \<le> fanout s"
    and receptive: "ok s \<Longrightarrow> \<exists>out s'. node_step s j d out s'"
begin

definition net_ok :: "('s, 'f) net \<Rightarrow> bool" where
  "net_ok c \<longleftrightarrow> (\<forall>n. ok (fst c n))"

text \<open>What a waiting frame can still cause: the sends of its node, if it is not marked.\<close>

definition weight :: "(nat \<Rightarrow> 's) \<Rightarrow> 'f delivery \<Rightarrow> nat" where
  "weight nodes x = (if is_marked (snd (snd x)) then 0 else fanout (nodes (fst x)))"

definition potential :: "('s, 'f) net \<Rightarrow> nat" where
  "potential c = (\<Sum>x\<in>#snd c. weight (fst c) x)"

definition fresh :: "('s, 'f) net \<Rightarrow> nat" where
  "fresh c = size {#x \<in># snd c. \<not> is_marked (snd (snd x))#}"

lemma deliveries_marked:
  assumes "ok s" "node_step s j d out s'" "(n', j', b) \<in> set (deliveries wire n out)"
  shows "is_marked b"
  using assms out_marked by (auto simp: deliveries_def)

lemma deliveries_silent: "deliveries wire n [] = []"
  by (simp add: deliveries_def)

lemma net_step_ok: "net_step node_step wire c out c' \<Longrightarrow> net_ok c \<Longrightarrow> net_ok c'"
  by (elim net_stepE) (auto simp: net_ok_def dest: step_ok)

lemma net_run_ok: "net_run node_step wire c tr c' \<Longrightarrow> net_ok c \<Longrightarrow> net_ok c'"
  by (induction rule: net_run.induct) (auto dest: net_step_ok)

lemma fresh_step:
  assumes "net_step node_step wire c out c'" "net_ok c"
  shows "fresh c' < fresh c \<or> fresh c' = fresh c \<and> size (snd c') < size (snd c)"
  using assms(1)
proof (rule net_stepE)
  fix nodes n j d s' M
  assume c: "c = (nodes, add_mset (n, j, d) M)"
    and c': "c' = (nodes(n := s'), M + mset (deliveries wire n out))"
    and s: "node_step (nodes n) j d out s'"
  have ok: "ok (nodes n)" using assms(2) by (simp add: net_ok_def c)
  have none: "{#x \<in># mset (deliveries wire n out). \<not> is_marked (snd (snd x))#} = {#}"
    using deliveries_marked [OF ok s, of _ _ _ wire n] by auto
  show ?thesis
    using marked_silent [OF ok s] none
    by (cases "is_marked d") (simp_all add: c c' fresh_def deliveries_silent)
qed

lemma net_terminates: "wfP (\<lambda>c' c. net_ok c \<and> (\<exists>out. net_step node_step wire c out c'))"
proof -
  have "wf (measures [fresh, \<lambda>c. size (snd c)])" by (rule wf_measures)
  then show ?thesis unfolding wfp_def
    by (rule wf_subset) (auto simp: in_measures dest: fresh_step)
qed

lemma potential_step:
  assumes "net_step node_step wire c out c'" "net_ok c"
  shows "length out + potential c' \<le> potential c"
  using assms(1)
proof (rule net_stepE)
  fix nodes n j d s' M
  assume c: "c = (nodes, add_mset (n, j, d) M)"
    and c': "c' = (nodes(n := s'), M + mset (deliveries wire n out))"
    and s: "node_step (nodes n) j d out s'"
  have ok: "ok (nodes n)" using assms(2) by (simp add: net_ok_def c)
  have w: "weight (nodes(n := s')) = weight nodes"
    using step_ok [OF ok s] by (auto simp: weight_def)
  have "(\<Sum>x\<in>#mset (deliveries wire n out). weight nodes x) = 0"
    using deliveries_marked [OF ok s, of _ _ _ wire n] by (auto simp: weight_def)
  then have "potential c' = (\<Sum>x\<in>#M. weight nodes x)" by (simp add: potential_def c' w)
  moreover have "potential c = weight nodes (n, j, d) + (\<Sum>x\<in>#M. weight nodes x)"
    by (simp add: potential_def c)
  moreover have "length out \<le> weight nodes (n, j, d)"
    using marked_silent [OF ok s] out_bound [OF ok s] by (simp add: weight_def)
  ultimately show ?thesis by simp
qed

lemma net_sends_bound:
  "net_run node_step wire c tr c' \<Longrightarrow> net_ok c \<Longrightarrow> length tr + potential c' \<le> potential c"
proof (induction rule: net_run.induct)
  case (more c out c' tr c'')
  then show ?case using potential_step [OF more.hyps(1)] net_step_ok [OF more.hyps(1)] by fastforce
qed simp

text \<open>A network with waiting frames can always take a step, so every run can be continued until
  no frame is left.\<close>

lemma net_progress: "net_ok c \<Longrightarrow> snd c \<noteq> {#} \<Longrightarrow> \<exists>out c'. net_step node_step wire c out c'"
proof -
  assume ok: "net_ok c" and "snd c \<noteq> {#}"
  then obtain n j d M where "snd c = add_mset (n, j, d) M" by (metis multi_nonempty_split prod_cases3)
  then have c: "c = (fst c, add_mset (n, j, d) M)" by (metis prod.collapse)
  obtain out s' where "node_step (fst c n) j d out s'" using receptive ok by (metis net_ok_def)
  then show ?thesis by (subst c) (blast intro: net_step.receive)
qed

lemma net_becomes_quiet: "net_ok c \<Longrightarrow> \<exists>tr nodes. net_run node_step wire c tr (nodes, {#})"
proof (induction c rule: wfp_induct_rule [OF net_terminates [of wire]])
  case (1 c)
  show ?case
  proof (cases "snd c = {#}")
    case True
    then show ?thesis by (metis net_run.stop prod.collapse)
  next
    case False
    with 1 obtain out c' where s: "net_step node_step wire c out c'" using net_progress by blast
    with 1 net_step_ok obtain tr nodes where "net_run node_step wire c' tr (nodes, {#})" by blast
    with s show ?thesis by (blast intro: net_run.more)
  qed
qed

end

section \<open>The relay as a node\<close>

fun sent_frame :: "event \<Rightarrow> nat \<times> buf" where
  "sent_frame (Sendto f b a) = (f, b)"
| "sent_frame e = (0, [])"

definition sent :: "event list \<Rightarrow> (nat \<times> buf) list" where
  "sent es = map sent_frame (sends es)"

text \<open>
  A relay receives a frame on its input socket number \<open>j\<close>, at any time and with any result of
  its sends; a frame for a port that it does not have is lost.
\<close>

definition relay_node_step :: "pnet \<Rightarrow> (RunState, buf) node_step" where
  "relay_node_step P st j d out st' \<longleftrightarrow>
     (if j < length (input_sockets (self st)) then
        \<exists>env es. ie_recv env j = Inr d \<and>
          handle_input P env [ps_fd (input_sockets (self st) ! j)] j (input_sockets (self st) ! j) st
            = Ret (es, st') \<and> out = sent es
      else out = [] \<and> st' = st)"

definition relay_fanout :: "RunState \<Rightarrow> nat" where
  "relay_fanout st = length (output_sockets (self st))"

definition frame_marked :: "buf \<Rightarrow> bool" where
  "frame_marked d \<longleftrightarrow> marked (received d)"

section \<open>The relay meets the contract\<close>

lemma length_sent [simp]: "length (sent es) = length (sends es)"
  by (simp add: sent_def)

lemma sent_mem: "(f, b) \<in> set (sent es) \<Longrightarrow> \<exists>a. Sendto f b a \<in> set (sends es)"
proof -
  assume "(f, b) \<in> set (sent es)"
  then obtain e where e: "e \<in> set (sends es)" "(f, b) = sent_frame e" unfolding sent_def by auto
  then have "is_sendto e" by (simp add: sends_def)
  then obtain f' b' a where "e = Sendto f' b' a" by (cases e) simp_all
  with e show ?thesis by auto
qed

context pnet_layout
begin

lemma relay_node_stepE:
  assumes "bufs_ok st" "relay_node_step P st j d out st'"
  obtains (lost) "out = []" "st' = st"
  | (handled) env s es oks rqs where "rqs = socket_requests P (output_sockets (self st))
      (relay_filter (self st)) env [ps_fd s] j s" "ie_recv env j = Inr d" "implements st rqs es st'"
      "out = sent es" "length oks = length rqs" "sends es = granted oks rqs"
proof (cases "j < length (input_sockets (self st))")
  case True
  let ?s = "input_sockets (self st) ! j"
  from True assms(2) obtain env es where e: "ie_recv env j = Inr d"
    "handle_input P env [ps_fd ?s] j ?s st = Ret (es, st')" "out = sent es"
    by (auto simp: relay_node_step_def)
  let ?rq = "socket_requests P (output_sockets (self st)) (relay_filter (self st)) env [ps_fd ?s] j ?s"
  have i: "implements st ?rq es st'"
    using handle_input_implements [OF assms(1), of env "[ps_fd ?s]" j ?s] e by simp
  let ?oks = "fst (admit (rate_limiter (self st)) (map fst ?rq))"
  have "sends es = granted ?oks ?rq" "length ?oks = length ?rq"
    using i by (auto simp: implements_def does_def split_beta Let_def)
  with e i show thesis by (intro handled [of ?rq env ?s es ?oks]) simp_all
qed (use assms lost in \<open>simp add: relay_node_step_def\<close>)

sublocale node: marking_node "relay_node_step P" bufs_ok frame_marked relay_fanout
proof
  fix st j d out st'
  assume ok: "bufs_ok st" and step: "relay_node_step P st j d out st'"
  note E = relay_node_stepE [OF ok step]
  show "bufs_ok st' \<and> relay_fanout st' = relay_fanout st"
    by (rule E) (use ok in \<open>auto simp: relay_fanout_def dest: implements_frame\<close>)
  show "frame_marked b" if o: "(f, b) \<in> set out" for f b
  proof (rule E)
    fix env s es oks rqs
    assume r: "rqs = socket_requests P (output_sockets (self st)) (relay_filter (self st)) env [ps_fd s] j s"
      and "out = sent es" "sends es = granted oks rqs"
    with o obtain a where "Sendto f b a \<in> set (granted oks rqs)" using sent_mem by metis
    then obtain t cs where "(t, cs) \<in> set rqs" "Sendto f b a \<in> set cs" using granted_mem by blast
    then obtain d' no out' where c: "relayable (received d')"
      "Sendto f b a = send out' (copy_for P no (received d') out')"
      unfolding r by (auto dest!: socket_requests_mem simp: copies_mem_iff passes_Some_iff)
    with copy_for_marked [OF c(1), of P no out'] length_received [of d'] show "frame_marked b"
      by (simp add: frame_marked_def send_def)
  qed (use o in simp)
  show "out = []" if m: "frame_marked d"
    by (rule E) (use m in \<open>auto simp: socket_requests_def passes_def frame_marked_def sent_def
      split: if_splits\<close>)
  show "length out \<le> relay_fanout st"
  proof (rule E)
    fix env s es oks rqs
    assume r: "rqs = socket_requests P (output_sockets (self st)) (relay_filter (self st)) env [ps_fd s] j s"
      and o: "out = sent es" "sends es = granted oks rqs" and l: "length oks = length rqs"
    have "length rqs \<le> 1" by (simp add: r socket_requests_def split: sum.split option.split)
    then have "count_list oks True \<le> 1" using l count_le_length [of oks True] by linarith
    from mult_le_mono2 [OF this, of "relay_fanout st"]
    have "relay_fanout st * count_list oks True \<le> relay_fanout st" by (simp only: mult_1_right)
    moreover have "length (granted oks rqs) \<le> relay_fanout st * count_list oks True"
      using l by (intro length_granted_le)
        (auto simp: r relay_fanout_def dest!: socket_requests_mem intro: length_copies_le)
    ultimately show "length out \<le> relay_fanout st" using o by (simp only: length_sent order_trans)
  qed simp
next
  fix st j d
  assume ok: "bufs_ok st"
  show "\<exists>out st'. relay_node_step P st j d out st'"
  proof (cases "j < length (input_sockets (self st))")
    case True
    let ?env = "\<lparr>ie_select = Inr (0, []), ie_recv = \<lambda>_. Inr d, ie_now = \<lambda>_. 0, ie_send = \<lambda>_ _. Inr 0\<rparr>"
    let ?s = "input_sockets (self st) ! j"
    obtain es st' where h: "handle_input P ?env [ps_fd ?s] j ?s st = Ret (es, st')"
      using handle_input_implements [OF ok] by blast
    have "relay_node_step P st j d (sent es) st'"
      unfolding relay_node_step_def using True h by (auto intro!: exI [of _ ?env])
    then show ?thesis by blast
  qed (simp add: relay_node_step_def)
qed

text \<open>The facts of the contract, over the model's own definitions.\<close>

lemma node_net_ok [simp]: "node.net_ok c \<longleftrightarrow> (\<forall>n. bufs_ok (fst c n))"
  by (simp add: node.net_ok_def)

lemma relay_net_no_infinite_run:
  assumes "\<forall>n. bufs_ok (fst (c 0) n)" "\<forall>i. \<exists>out. net_step (relay_node_step P) wire (c i) out (c (Suc i))"
  shows False
proof -
  have "node.net_ok (c i)" for i
  proof (induction i)
    case (Suc i)
    with assms(2) node.net_step_ok show ?case by blast
  qed (use assms(1) in simp)
  with assms(2) have "\<forall>i. node.net_ok (c i) \<and> (\<exists>out. net_step (relay_node_step P) wire (c i) out (c (Suc i)))"
    by blast
  with node.net_terminates [of wire] show False
    unfolding wfp_def wf_iff_no_infinite_down_chain by blast
qed

lemma relay_net_becomes_quiet:
  assumes "\<forall>n. bufs_ok (fst c n)" "net_run (relay_node_step P) wire c tr c'"
  shows "\<exists>tr' nodes'. net_run (relay_node_step P) wire c' tr' (nodes', {#})"
  using node.net_becomes_quiet node.net_run_ok [OF assms(2)] assms(1) by simp

lemma relay_net_sends_bound:
  assumes "\<forall>n. bufs_ok (nodes n)" "net_run (relay_node_step P) wire (nodes, M) tr c'"
  shows "length tr \<le> (\<Sum>(n, j, d)\<in>#M. if marked (received d) then 0 else length (output_sockets (self (nodes n))))"
proof -
  have "node.potential (nodes, M) =
      (\<Sum>(n, j, d)\<in>#M. if marked (received d) then 0 else length (output_sockets (self (nodes n))))"
    unfolding node.potential_def fst_conv snd_conv
    by (intro arg_cong [of _ _ sum_mset] image_mset_cong)
      (auto simp: node.weight_def frame_marked_def relay_fanout_def)
  then show ?thesis using node.net_sends_bound [OF assms(2)] assms(1) by simp
qed

end

end
