(* ===== verification/Bcr_Builders.thy ===== *)
theory Bcr_Builders
  imports Bcr_Nat
begin

text \<open>
  The packet builders of the unit tests of \<open>src/src/packet.rs\<close> and \<open>src/src/nat.rs\<close>. They use setters of
  the \<open>pnet\<close> crate that the program itself does not call; these are the record \<open>pnet_setters\<close>, with the
  locale \<open>pnet_building\<close> for their documented effect and an implementation from the RFCs.
\<close>

section \<open>Definitions\<close>

record pnet_setters =
  ipv4_set_version :: "u8 \<Rightarrow> buf \<Rightarrow> buf"
  ipv4_set_header_length :: "u8 \<Rightarrow> buf \<Rightarrow> buf"
  ipv4_set_total_length :: "u16 \<Rightarrow> buf \<Rightarrow> buf"
  ipv4_set_next_level_protocol :: "u8 \<Rightarrow> buf \<Rightarrow> buf"
  udp_set_length :: "u16 \<Rightarrow> buf \<Rightarrow> buf"
  udp_set_payload :: "buf \<Rightarrow> buf \<Rightarrow> buf"
  udp_get_checksum :: "buf \<Rightarrow> u16"

definition rfc_setters :: pnet_setters where
  "rfc_setters = \<lparr>
     ipv4_set_version = (\<lambda>v b. b[0 := push_bit 4 v OR (b ! 0 AND 0x0F)]),
     ipv4_set_header_length = (\<lambda>v b. b[0 := (b ! 0 AND 0xF0) OR (v AND 0x0F)]),
     ipv4_set_total_length = put16 2,
     ipv4_set_next_level_protocol = (\<lambda>p b. b[9 := p]),
     udp_set_length = put16 4,
     udp_set_payload = (\<lambda>d b. take 8 b @ d @ drop (8 + length d) b),
     udp_get_checksum = (\<lambda>b. be16 b 6)\<rparr>"

text \<open>\<open>build_udp\<close> of the tests of \<open>packet.rs\<close>.\<close>

definition build_udp :: "pnet \<Rightarrow> pnet_setters \<Rightarrow> ipv4addr \<Rightarrow> ipv4addr \<Rightarrow> buf outcome" where
  "build_udp P Q src dst =
     (let buf = replicate (20 + 8) 0 in
      seq (unwrap (ipv4_packet_new P buf)) (\<lambda>ip0.
      let ip1 = ipv4_set_version Q 4 ip0;
          ip2 = ipv4_set_header_length Q 5 ip1;
          ip3 = ipv4_set_total_length Q 28 ip2;
          ip4 = ipv4_set_ttl P 64 ip3;
          ip5 = ipv4_set_next_level_protocol Q PROTO_UDP ip4;
          ip6 = ipv4_set_source P src ip5;
          buf1 = ipv4_set_destination P dst ip6
      in seq (slice_from 20 buf1) (\<lambda>s.
         seq (unwrap (udp_packet_new P s)) (\<lambda>udp0.
         let udp1 = udp_set_source P 1234 udp0;
             udp2 = udp_set_destination P 5353 udp1;
             udp3 = udp_set_length Q 8 udp2;
             udp4 = udp_set_checksum P 0x1234 udp3
         in Ret (take 20 buf1 @ udp4)))))"

text \<open>\<open>build_packet\<close> of the tests of \<open>nat.rs\<close>, with the payload \<open>b"hello"\<close>.\<close>

definition hello :: buf where
  "hello = [0x68, 0x65, 0x6C, 0x6C, 0x6F]"

definition build_packet :: "pnet \<Rightarrow> pnet_setters \<Rightarrow> u8 \<Rightarrow> u16 \<Rightarrow> u16 \<Rightarrow> buf outcome" where
  "build_packet P Q ttl ip_id udp_cksum =
     (let payload = hello; buf = replicate (20 + 8 + length payload) 0 in
      seq (unwrap (ipv4_packet_new P buf)) (\<lambda>ip0.
      let ip1 = ipv4_set_version Q 4 ip0;
          ip2 = ipv4_set_header_length Q 5 ip1;
          ip3 = ipv4_set_total_length Q (of_nat (20 + 8 + length payload)) ip2;
          ip4 = ipv4_set_identification P ip_id ip3;
          ip5 = ipv4_set_ttl P ttl ip4;
          ip6 = ipv4_set_next_level_protocol Q PROTO_UDP ip5;
          ip7 = ipv4_set_source P (Ipv4Addr 192 168 1 50) ip6;
          buf1 = ipv4_set_destination P (Ipv4Addr 255 255 255 255) ip7
      in seq (slice_from 20 buf1) (\<lambda>s.
         seq (unwrap (udp_packet_new P s)) (\<lambda>udp0.
         let udp1 = udp_set_source P 1234 udp0;
             udp2 = udp_set_destination P 5353 udp1;
             udp3 = udp_set_length Q (of_nat (8 + length payload)) udp2;
             udp4 = udp_set_checksum P udp_cksum udp3;
             udp5 = udp_set_payload Q payload udp4
         in Ret (take 20 buf1 @ udp5)))))"

section \<open>The contract\<close>

text \<open>\<open>set_payload\<close> is only relied on for a payload that the UDP length field announces and the slice
  holds.\<close>

locale pnet_building =
  fixes Q :: pnet_setters
  assumes set_version: "20 \<le> length b \<Longrightarrow> ipv4_set_version Q v b = b[0 := push_bit 4 v OR (b ! 0 AND 0x0F)]"
    and set_header_length:
      "20 \<le> length b \<Longrightarrow> ipv4_set_header_length Q v b = b[0 := (b ! 0 AND 0xF0) OR (v AND 0x0F)]"
    and set_total_length: "20 \<le> length b \<Longrightarrow> ipv4_set_total_length Q n b = put16 2 n b"
    and set_protocol: "20 \<le> length b \<Longrightarrow> ipv4_set_next_level_protocol Q p b = b[9 := p]"
    and udp_set_len: "8 \<le> length b \<Longrightarrow> udp_set_length Q n b = put16 4 n b"
    and udp_set_data: "8 + length d = length b \<Longrightarrow> unat (be16 b 4) = length b \<Longrightarrow>
      udp_set_payload Q d b = take 8 b @ d"
    and udp_get_sum: "8 \<le> length b \<Longrightarrow> udp_get_checksum Q b = be16 b 6"
begin

lemmas setters = set_version set_header_length set_total_length set_protocol udp_set_len udp_set_data udp_get_sum

end

interpretation rfc_set: pnet_building rfc_setters
  by unfold_locales (simp_all add: rfc_setters_def)

section \<open>The packets that are built\<close>

definition udp_bytes :: "ipv4addr \<Rightarrow> ipv4addr \<Rightarrow> buf" where
  "udp_bytes src dst = [0x45, 0, 0, 28, 0, 0, 0, 0, 64, 17, 0, 0] @ octets src @ octets dst @
     [0x04, 0xD2, 0x14, 0xE9, 0, 8, 0x12, 0x34]"

definition hello_bytes :: "u8 \<Rightarrow> u16 \<Rightarrow> u16 \<Rightarrow> buf" where
  "hello_bytes ttl ip_id cksum = [0x45, 0, 0, 33, hi8 ip_id, lo8 ip_id, 0, 0, ttl, 17, 0, 0,
     192, 168, 1, 50, 255, 255, 255, 255, 0x04, 0xD2, 0x14, 0xE9, 0, 13, hi8 cksum, lo8 cksum] @ hello"

lemma zeros: "replicate (20 + 8) (0 :: u8) = [0, 0, 0, 0, 0, 0, 0, 0, 0, 0, 0, 0, 0, 0, 0, 0, 0, 0, 0, 0, 0, 0, 0, 0, 0, 0, 0, 0]"
  by (simp add: numeral_eq_Suc)

lemma zeros33: "replicate 33 (0 :: u8) =
    [0, 0, 0, 0, 0, 0, 0, 0, 0, 0, 0, 0, 0, 0, 0, 0, 0, 0, 0, 0, 0, 0, 0, 0, 0, 0, 0, 0, 0, 0, 0, 0, 0]"
  "replicate 13 (0 :: u8) = [0, 0, 0, 0, 0, 0, 0, 0, 0, 0, 0, 0, 0]"
  by (simp_all add: numeral_eq_Suc)

lemma octet_consts: "hi8 0 = 0" "lo8 0 = 0" "hi8 28 = 0" "lo8 28 = 28" "hi8 1234 = 0x04" "lo8 1234 = 0xD2" "hi8 5353 = 0x14"
  "lo8 5353 = 0xE9" "hi8 8 = 0" "lo8 8 = 8" "hi8 0x1234 = 0x12" "lo8 0x1234 = 0x34" "hi8 33 = 0" "lo8 33 = 33"
  "hi8 13 = 0" "lo8 13 = 13"
  by code_simp+

locale test_bed = pnet_checksums P + pnet_building Q for P Q
begin

lemma build_udp_eq: "build_udp P Q src dst = Ret (udp_bytes src dst)"
proof -
  obtain a b c d where src: "src = Ipv4Addr a b c d" by (cases src)
  obtain e f g h where dst: "dst = Ipv4Addr e f g h" by (cases dst)
  show ?thesis
    unfolding build_udp_def zeros src dst udp_bytes_def
    by (simp add: ipv4_new ipv4_writes setters udp_accessors Let_def slice_from_def unwrap_def PROTO_UDP_def
        put16_def octet_consts)
qed

lemma build_packet_eq: "build_packet P Q ttl ip_id cksum = Ret (hello_bytes ttl ip_id cksum)"
  unfolding build_packet_def hello_bytes_def
  by (simp add: hello_def zeros33 ipv4_new ipv4_writes setters udp_accessors Let_def slice_from_def unwrap_def
      PROTO_UDP_def put16_def be16_def octet_consts)

end

interpretation rfc_tests: test_bed rfc_pnet rfc_setters
  by unfold_locales

end
