(* ===== verification/Bcr_Grammar.thy ===== *)
theory Bcr_Grammar
  imports Bcr_Config
begin

text \<open>
  The rule language that \<open>README.md\<close> and \<open>packaging/bcr.8\<close> document, in the form with both ports, as
  abstract syntax with a printer and a denotation, and the parser of \<open>src/src/config.rs\<close> related to it
  in both directions: every such rule is parsed to its denotation, and every rule the parser
  returns is the denotation of such a rule. The documents also allow to leave the ports out
  (\<open>SRC_IP[:SRC_PORT] DST_IP[:DST_PORT]\<close>); the parser refuses that form (\<open>portless_rule_refused\<close>).
\<close>

section \<open>Abstract syntax, printer and denotation\<close>

datatype addr_syn = SAny | SAddr ipv4addr | SCidr ipv4addr nat

datatype port_syn = PAny | PPort u16 | PRange u16 u16

datatype dest_syn = DDirected | DAddr addr_syn

datatype opt_syn = OSnat ipv4addr | ODnat ipv4addr | OSport u16 | ODport u16

record rule_syn =
  syn_action :: Action
  syn_protocol :: Protocol
  syn_src :: addr_syn
  syn_sport :: port_syn
  syn_dst :: dest_syn
  syn_dport :: port_syn
  syn_opts :: "opt_syn list"

fun show_addr :: "addr_syn \<Rightarrow> string" where
  "show_addr SAny = ''any''"
| "show_addr (SAddr ip) = show_ipv4 ip"
| "show_addr (SCidr ip n) = show_ipv4 ip @ CHR ''/'' # show_nat n"

fun show_port :: "port_syn \<Rightarrow> string" where
  "show_port PAny = ''any''"
| "show_port (PPort p) = show_word p"
| "show_port (PRange s e) = show_word s @ CHR ''-'' # show_word e"

fun show_dest :: "dest_syn \<Rightarrow> string" where
  "show_dest DDirected = ''directed''"
| "show_dest (DAddr a) = show_addr a"

fun show_opt :: "opt_syn \<Rightarrow> string" where
  "show_opt (OSnat ip) = ''snat='' @ show_ipv4 ip"
| "show_opt (ODnat ip) = ''dnat='' @ show_ipv4 ip"
| "show_opt (OSport p) = ''sport='' @ show_word p"
| "show_opt (ODport p) = ''dport='' @ show_word p"

fun show_action :: "Action \<Rightarrow> string" where
  "show_action Allow = ''allow''"
| "show_action Deny = ''deny''"

fun show_protocol :: "Protocol \<Rightarrow> string" where
  "show_protocol Udp = ''udp''"
| "show_protocol ProtoAny = ''any''"

definition show_rule :: "rule_syn \<Rightarrow> string" where
  "show_rule r = unwords
     ([show_action (syn_action r), show_protocol (syn_protocol r),
       show_addr (syn_src r) @ CHR '':'' # show_port (syn_sport r),
       show_dest (syn_dst r) @ CHR '':'' # show_port (syn_dport r)] @ map show_opt (syn_opts r))"

fun addr_ok :: "addr_syn \<Rightarrow> bool" where
  "addr_ok (SCidr ip n) \<longleftrightarrow> n \<le> 32"
| "addr_ok _ \<longleftrightarrow> True"

fun port_ok :: "port_syn \<Rightarrow> bool" where
  "port_ok (PRange s e) \<longleftrightarrow> s \<le> e"
| "port_ok _ \<longleftrightarrow> True"

fun dest_ok :: "dest_syn \<Rightarrow> bool" where
  "dest_ok (DAddr a) \<longleftrightarrow> addr_ok a"
| "dest_ok DDirected \<longleftrightarrow> True"

text \<open>A documented rule with both ports: prefix lengths and ranges in bounds, NAT options on allow rules only.\<close>

definition rule_ok :: "rule_syn \<Rightarrow> bool" where
  "rule_ok r \<longleftrightarrow> addr_ok (syn_src r) \<and> port_ok (syn_sport r) \<and> dest_ok (syn_dst r) \<and>
     port_ok (syn_dport r) \<and> (syn_action r = Deny \<longrightarrow> syn_opts r = [])"

fun addr_den :: "addr_syn \<Rightarrow> IpMatcher" where
  "addr_den SAny = IpAny"
| "addr_den (SAddr ip) = IpExact ip"
| "addr_den (SCidr ip n) =
     (let m = prefix_mask (of_nat n) in Cidr (ip_u32 ip AND m) m)"

fun port_den :: "port_syn \<Rightarrow> PortMatcher" where
  "port_den PAny = PortAny"
| "port_den (PPort p) = PortExact p"
| "port_den (PRange s e) = PortRange s e"

fun dest_den :: "dest_syn \<Rightarrow> IpMatcher \<times> BroadcastType" where
  "dest_den DDirected = (IpAny, Directed)"
| "dest_den (DAddr a) =
     (addr_den a, if a = SAddr (Ipv4Addr 255 255 255 255) then Limited else BcastAny)"

fun opt_den :: "NatOptions \<Rightarrow> opt_syn \<Rightarrow> NatOptions" where
  "opt_den no (OSnat ip) = no\<lparr>source_ip := Some ip\<rparr>"
| "opt_den no (ODnat ip) = no\<lparr>dest_ip := Some ip\<rparr>"
| "opt_den no (OSport p) = no\<lparr>source_port := Some p\<rparr>"
| "opt_den no (ODport p) = no\<lparr>dest_port := Some p\<rparr>"

definition rule_den :: "rule_syn \<Rightarrow> Rule" where
  "rule_den r = \<lparr>rule_action = syn_action r, rule_protocol = syn_protocol r,
     rule_src_ip = addr_den (syn_src r), rule_src_port = port_den (syn_sport r),
     rule_dst_ip = fst (dest_den (syn_dst r)), rule_dst_port = port_den (syn_dport r),
     rule_broadcast_type = snd (dest_den (syn_dst r)),
     rule_nat = foldl opt_den nat_default (syn_opts r)\<rparr>"

section \<open>The characters of printed tokens\<close>

definition addr_char :: "char \<Rightarrow> bool" where
  "addr_char c \<longleftrightarrow> is_digit c \<or> c = CHR ''.''"

lemma show_word_digits: "c \<in> set (show_word w) \<Longrightarrow> is_digit c"
  by (simp add: show_word_def show_nat_is_digit)

lemma show_word_not_Nil [simp]: "show_word w \<noteq> []"
  by (simp add: show_word_def)

lemma show_ipv4_chars: "c \<in> set (show_ipv4 ip) \<Longrightarrow> addr_char c"
  by (cases ip) (auto simp: addr_char_def dest: show_word_digits)

lemma not_addr_char [simp]:
  "\<not> addr_char (CHR '':'')" "\<not> addr_char (CHR ''/'')" "\<not> addr_char (CHR ''a'')"
  "\<not> addr_char (CHR ''d'')" "\<not> addr_char (CHR ''-'')"
  by (simp_all add: addr_char_def is_digit_def byte_def)

lemma show_ipv4_not_in [simp]: "\<not> addr_char c \<Longrightarrow> c \<notin> set (show_ipv4 ip)"
  using show_ipv4_chars by blast

lemma show_word_not_in [simp]: "\<not> is_digit c \<Longrightarrow> c \<notin> set (show_word w)"
  using show_word_digits by blast

lemma show_nat_not_in [simp]: "\<not> is_digit c \<Longrightarrow> c \<notin> set (show_nat n)"
  using show_nat_is_digit by blast

lemma show_ipv4_not_Nil [simp]: "show_ipv4 ip \<noteq> []"
  by (cases ip) simp

lemma neq_word_if_char: "c \<in> set t \<Longrightarrow> c \<notin> set s \<Longrightarrow> s \<noteq> t"
  by auto

lemma show_ipv4_not_word [simp]: "show_ipv4 ip \<noteq> ''any''" "show_ipv4 ip \<noteq> ''directed''"
  by (rule neq_word_if_char [of "CHR ''a''"]; simp)
     (rule neq_word_if_char [of "CHR ''d''"]; simp)

lemma show_ipv4_inj [simp]: "show_ipv4 x = show_ipv4 y \<longleftrightarrow> x = y"
  by (metis ipv4_from_str_iff sum.inject(2))

lemma addr_char_graphic: "addr_char c \<Longrightarrow> graphic c"
  by (auto simp: addr_char_def is_digit_def graphic_def byte_def)

lemma is_digit_graphic: "is_digit c \<Longrightarrow> graphic c"
  by (simp add: addr_char_graphic addr_char_def)

lemma graphic_const [simp]:
  "graphic (CHR '':'')" "graphic (CHR ''/'')" "graphic (CHR ''-'')" "graphic (CHR ''='')"
  by (simp_all add: graphic_def byte_def)

lemma show_ipv4_graphic: "c \<in> set (show_ipv4 ip) \<Longrightarrow> graphic c"
  by (simp add: show_ipv4_chars addr_char_graphic)

lemma show_word_graphic: "c \<in> set (show_word w) \<Longrightarrow> graphic c"
  by (simp add: show_word_digits is_digit_graphic)

lemma letters_graphic:
  "list_all graphic ''any''" "list_all graphic ''directed''" "list_all graphic ''allow''"
  "list_all graphic ''deny''" "list_all graphic ''udp''" "list_all graphic ''snat=''"
  "list_all graphic ''dnat=''" "list_all graphic ''sport=''" "list_all graphic ''dport=''"
  by (simp_all add: graphic_def byte_def)

section \<open>Every documented rule is parsed to its denotation\<close>

lemma parse_ip_matcher_show [simp]: "addr_ok a \<Longrightarrow> parse_ip_matcher (show_addr a) = Inr (addr_den a)"
proof (cases a)
  case (SCidr ip n)
  assume "addr_ok a"
  with SCidr have n: "n \<le> 32" by simp
  have "show_ipv4 ip @ CHR ''/'' # show_nat n \<noteq> ''any''"
    by (rule neq_word_if_char [of "CHR ''a''"])
       (auto simp: digit_char_neq is_digit_def byte_def)
  moreover have "\<not> (32 :: u32) < of_nat n"
    using n by (simp add: word_less_nat_alt unsigned_of_nat take_bit_eq_mod)
  ultimately show ?thesis
    using n SCidr by (simp add: parse_ip_matcher_def parse_u32_show_nat Let_def)
qed (auto simp: parse_ip_matcher_def)

lemma is_digit_letters [simp]:
  "\<not> is_digit (CHR ''a'')" "\<not> is_digit (CHR ''d'')" "\<not> is_digit (CHR ''n'')"
  by (simp_all add: is_digit_def byte_def)

lemma show_word_not_any [simp]: "show_word w \<noteq> ''any''"
  by (rule neq_word_if_char [of "CHR ''a''"]) simp_all

lemma parse_port_matcher_show [simp]:
  "port_ok p \<Longrightarrow> parse_port_matcher (show_port p) = Inr (port_den p)"
proof (cases p)
  case (PRange s e)
  assume "port_ok p"
  have "show_word s @ CHR ''-'' # show_word e \<noteq> ''any''"
    by (rule neq_word_if_char [of "CHR ''a''"]) auto
  with PRange \<open>port_ok p\<close> show ?thesis by (auto simp: parse_port_matcher_def)
qed (auto simp: parse_port_matcher_def)

lemma show_addr_no_colon [simp]: "CHR '':'' \<notin> set (show_addr a)"
  by (cases a) auto

lemma show_port_no_colon [simp]: "CHR '':'' \<notin> set (show_port p)"
  by (cases p) auto

lemma show_dest_no_colon [simp]: "CHR '':'' \<notin> set (show_dest d)"
  by (cases d) auto

lemma parse_addr_port_show [simp]:
  "addr_ok a \<Longrightarrow> port_ok p \<Longrightarrow>
   parse_addr_port (show_addr a @ CHR '':'' # show_port p) = Inr (addr_den a, port_den p)"
  by (simp add: parse_addr_port_def)

lemma show_limited: "show_ipv4 (Ipv4Addr 255 255 255 255) = ''255.255.255.255''"
  by (simp add: show_word_def show_nat_step digit_char_def) code_simp

lemma show_addr_limited:
  "show_addr a = ''255.255.255.255'' \<longleftrightarrow> a = SAddr (Ipv4Addr 255 255 255 255)"
proof (cases a)
  case (SAddr ip)
  then show ?thesis
    using show_ipv4_inj [of ip "Ipv4Addr 255 255 255 255", unfolded show_limited] by simp
next
  case (SCidr ip n)
  have "show_addr a \<noteq> ''255.255.255.255''"
    by (rule neq_word_if_char [symmetric, of "CHR ''/''"]) (use SCidr in auto)
  with SCidr show ?thesis by simp
qed simp

lemma show_addr_directed [simp]: "show_addr a \<noteq> ''directed''"
proof (cases a)
  case (SCidr ip n)
  then show ?thesis
    by (intro neq_word_if_char [of "CHR ''d''"]) auto
qed simp_all

lemma show_addr_any: "show_addr a = ''any'' \<longleftrightarrow> a = SAny"
proof (cases a)
  case (SCidr ip n)
  have "show_addr a \<noteq> ''any''"
    by (rule neq_word_if_char [of "CHR ''a''"]) (use SCidr in auto)
  with SCidr show ?thesis by simp
qed simp_all

lemma parse_dest_show [simp]:
  "dest_ok d \<Longrightarrow> port_ok p \<Longrightarrow>
   parse_dest_addr_port (show_dest d @ CHR '':'' # show_port p) =
     Inr (fst (dest_den d), port_den p, snd (dest_den d))"
  by (cases d)
     (auto simp: parse_dest_addr_port_def show_addr_limited show_addr_any)

lemma parse_nat_opt_show [simp]: "parse_nat_opt no (show_opt x) = Inr (opt_den no x)"
  by (cases x) (simp_all add: parse_nat_opt_def strip_prefix_def)

lemma parse_nat_opts_show [simp]: "parse_nat_opts no (map show_opt xs) = Inr (foldl opt_den no xs)"
  by (induction xs arbitrary: no) simp_all

lemma parse_keywords [simp]:
  "parse_action (show_action a) = Inr a" "parse_protocol (show_protocol p) = Inr p"
  by (cases a; simp add: parse_action_def) (cases p; simp add: parse_protocol_def)

lemma show_nat_token_chars: "c \<in> set (show_nat n) \<Longrightarrow> graphic c"
  by (rule show_nat_graphic)

lemmas graphic_intros =
  show_ipv4_graphic show_word_graphic show_nat_graphic

lemma show_tokens [simp]:
  "token (show_action a)" "token (show_protocol p)"
  "token (show_addr x @ CHR '':'' # show_port y)" "token (show_dest z @ CHR '':'' # show_port y)"
  "token (show_opt u)"
proof -
  have addr: "\<forall>c\<in>set (show_addr w). graphic c" for w
    using letters_graphic by (cases w) (auto intro: graphic_intros)
  have port: "\<forall>c\<in>set (show_port y). graphic c"
    using letters_graphic by (cases y) (auto intro: graphic_intros)
  have dest: "\<forall>c\<in>set (show_dest z). graphic c"
    using letters_graphic addr by (cases z) auto
  show "token (show_addr x @ CHR '':'' # show_port y)" "token (show_dest z @ CHR '':'' # show_port y)"
    using addr port dest by (auto simp: token_def)
  show "token (show_action a)"
    using letters_graphic by (cases a) (auto simp: token_def)
  show "token (show_protocol p)"
    using letters_graphic by (cases p) (auto simp: token_def)
  show "token (show_opt u)"
    using letters_graphic by (cases u) (auto simp: token_def intro: graphic_intros)
qed

lemma nat_default_none [simp]: "\<not> nat_is_some nat_default"
  by (simp add: nat_is_some_def nat_default_def)

lemma show_rule_tokens: "split_whitespace (show_rule r) =
   [show_action (syn_action r), show_protocol (syn_protocol r),
    show_addr (syn_src r) @ CHR '':'' # show_port (syn_sport r),
    show_dest (syn_dst r) @ CHR '':'' # show_port (syn_dport r)] @ map show_opt (syn_opts r)"
  unfolding show_rule_def by (rule split_whitespace_unwords) auto

lemma parse_rule_show: "rule_ok r \<Longrightarrow> parse_rule (show_rule r) = Inr (rule_den r)"
  by (auto simp: parse_rule_def show_rule_tokens rule_ok_def rule_den_def)

text \<open>A configuration file: blank lines, comments and documented rules.\<close>

datatype file_line = LBlank | LComment string | LRule rule_syn

fun show_line :: "file_line \<Rightarrow> string" where
  "show_line LBlank = []"
| "show_line (LComment s) = CHR ''#'' # s"
| "show_line (LRule r) = show_rule r"

fun line_ok :: "file_line \<Rightarrow> bool" where
  "line_ok LBlank \<longleftrightarrow> True"
| "line_ok (LComment s) \<longleftrightarrow> CHR 0x0A \<notin> set s"
| "line_ok (LRule r) \<longleftrightarrow> rule_ok r"

fun line_rules :: "file_line \<Rightarrow> Rule list" where
  "line_rules (LRule r) = [rule_den r]"
| "line_rules _ = []"

definition unlines :: "string list \<Rightarrow> string" where
  "unlines ls = concat (map (\<lambda>l. l @ [CHR 0x0A]) ls)"

definition config_text :: "file_line list \<Rightarrow> string" where
  "config_text ls = unlines (map show_line ls)"

lemma lines_go_line:
  "CHR 0x0A \<notin> set l \<Longrightarrow> lines_go acc (l @ CHR 0x0A # s) = strip_cr (acc @ l) # lines_go [] s"
  by (induction l arbitrary: acc) auto

lemma not_graphic_ctrl [simp]: "\<not> graphic (CHR 0x0A)" "\<not> graphic (CHR 0x0D)"
  by (simp_all add: graphic_def byte_def)

lemma unwords_chars: "\<forall>t\<in>set ts. token t \<Longrightarrow> c \<in> set (unwords ts) \<Longrightarrow> graphic c \<or> c = CHR '' ''"
  by (induction ts rule: unwords.induct) (auto simp: token_def)

lemma show_rule_line:
  "CHR 0x0A \<notin> set (show_rule r)" "CHR 0x0D \<notin> set (show_rule r)"
  "trim (show_rule r) = show_rule r" "\<not> skip_line (show_rule r)"
proof -
  define ts where "ts = [show_action (syn_action r), show_protocol (syn_protocol r),
    show_addr (syn_src r) @ CHR '':'' # show_port (syn_sport r),
    show_dest (syn_dst r) @ CHR '':'' # show_port (syn_dport r)] @ map show_opt (syn_opts r)"
  have r: "show_rule r = unwords ts" by (simp add: show_rule_def ts_def)
  have tok: "\<forall>t\<in>set ts. token t" by (auto simp: ts_def)
  show "CHR 0x0A \<notin> set (show_rule r)" "CHR 0x0D \<notin> set (show_rule r)"
    unfolding r using unwords_chars [OF tok] by fastforce+
  show "trim (show_rule r) = show_rule r" unfolding r using tok by (rule trim_unwords)
  have "hd (hd ts) \<noteq> CHR ''#''" by (cases "syn_action r") (simp_all add: ts_def)
  moreover have "ts \<noteq> []" by (simp add: ts_def)
  ultimately show "\<not> skip_line (show_rule r)"
    using unwords_ends [OF _ tok] by (simp add: skip_line_def r)
qed

lemma lines_unlines: "list_all (\<lambda>l. CHR 0x0A \<notin> set l) ls \<Longrightarrow> lines (unlines ls) = map strip_cr ls"
  by (induction ls) (simp_all add: unlines_def lines_def lines_go_line flush_def)

lemma strip_cr_comment: "\<exists>t. strip_cr (CHR ''#'' # s) = CHR ''#'' # t"
  by (cases s rule: rev_cases) (auto simp: strip_cr_def)

lemma trim_comment: "skip_line (trim (CHR ''#'' # s))"
proof -
  have "graphic (CHR ''#'')" by (simp add: graphic_def byte_def)
  then show ?thesis by (simp add: trim_def skip_line_def)
qed

lemma skip_blank: "skip_line (trim (strip_cr []))"
  by (simp add: strip_cr_def skip_line_def)

lemma strip_cr_rule: "strip_cr (show_rule r) = show_rule r"
  using show_rule_line(2) [of r] by (auto simp: strip_cr_def dest: last_in_set)

lemma parse_lines_file:
  "list_all line_ok ls \<Longrightarrow> parse_lines k acc (map strip_cr (map show_line ls)) =
     Inr \<lparr>rules = acc @ concat (map line_rules ls)\<rparr>"
proof (induction ls arbitrary: k acc)
  case (Cons l ls)
  show ?case
  proof (cases l)
    case LBlank
    with Cons show ?thesis by (simp add: skip_blank Let_def)
  next
    case (LComment s)
    from strip_cr_comment [of s] obtain t where "strip_cr (CHR ''#'' # s) = CHR ''#'' # t" by blast
    with LComment Cons show ?thesis by (simp add: trim_comment Let_def)
  next
    case (LRule r)
    with Cons show ?thesis by (simp add: strip_cr_rule show_rule_line parse_rule_show Let_def)
  qed
qed simp

lemma parse_config_text:
  assumes "list_all line_ok ls"
  shows "parse (config_text ls) = Inr \<lparr>rules = concat (map line_rules ls)\<rparr>"
proof -
  have "CHR 0x0A \<notin> set (show_line l)" if "line_ok l" for l
    using that show_rule_line(1) by (cases l) auto
  then have "list_all (\<lambda>l. CHR 0x0A \<notin> set l) (map show_line ls)"
    using assms by (simp add: list_all_iff)
  then show ?thesis
    using parse_lines_file [OF assms] by (simp add: parse_def config_text_def lines_unlines)
qed

text \<open>A criterion on the lines of a given file.\<close>

definition documented_line :: "string \<Rightarrow> bool" where
  "documented_line s \<longleftrightarrow> (\<exists>l. line_ok l \<and> s = show_line l)"

lemma documented_blank: "documented_line []"
  unfolding documented_line_def by (intro exI [of _ LBlank]) simp

lemma documented_comment: "CHR 0x0A \<notin> set s \<Longrightarrow> documented_line (CHR ''#'' # s)"
  unfolding documented_line_def by (intro exI [of _ "LComment s"]) simp

lemma documented_rule: "rule_ok r \<Longrightarrow> documented_line (show_rule r)"
  unfolding documented_line_def by (intro exI [of _ "LRule r"]) simp

lemma parse_documented_lines:
  assumes "list_all documented_line ss"
  shows "\<exists>cfg. parse (unlines ss) = Inr cfg"
proof -
  have "\<exists>ls. list_all line_ok ls \<and> map show_line ls = ss"
    using assms by (induction ss) (auto simp: documented_line_def intro: exI [of _ "_ # _"])
  then obtain ls where ls: "list_all line_ok ls" "map show_line ls = ss" by blast
  from parse_config_text [OF ls(1)] ls(2) show ?thesis by (simp add: config_text_def)
qed

section \<open>Every rule the parser returns is documented\<close>

definition doc_addr :: "IpMatcher \<Rightarrow> bool" where
  "doc_addr m \<longleftrightarrow> (\<exists>a. addr_ok a \<and> addr_den a = m)"

definition doc_port :: "PortMatcher \<Rightarrow> bool" where
  "doc_port m \<longleftrightarrow> (\<exists>p. port_ok p \<and> port_den p = m)"

definition doc_dest :: "IpMatcher \<times> BroadcastType \<Rightarrow> bool" where
  "doc_dest mt \<longleftrightarrow> (\<exists>d. dest_ok d \<and> dest_den d = mt)"

lemma doc_addr_intros [intro, simp]:
  "doc_addr IpAny" "doc_addr (IpExact ip)"
  "\<not> 32 < n \<Longrightarrow> doc_addr (Cidr (ip_u32 ip AND prefix_mask n) (prefix_mask n))"
proof -
  show "doc_addr IpAny" unfolding doc_addr_def by (rule exI [of _ SAny]) simp
  show "doc_addr (IpExact ip)" unfolding doc_addr_def by (rule exI [of _ "SAddr ip"]) simp
  assume "\<not> 32 < n"
  then show "doc_addr (Cidr (ip_u32 ip AND prefix_mask n) (prefix_mask n))"
    unfolding doc_addr_def
    by (intro exI [of _ "SCidr ip (unat n)"]) (simp add: Let_def word_le_nat_alt not_less)
qed

lemma doc_port_intros [intro, simp]:
  "doc_port PortAny" "doc_port (PortExact p)" "s \<le> e \<Longrightarrow> doc_port (PortRange s e)"
proof -
  show "doc_port PortAny" unfolding doc_port_def by (rule exI [of _ PAny]) simp
  show "doc_port (PortExact p)" unfolding doc_port_def by (rule exI [of _ "PPort p"]) simp
  assume "s \<le> e"
  then show "doc_port (PortRange s e)"
    unfolding doc_port_def by (intro exI [of _ "PRange s e"]) simp
qed

lemma parse_ip_matcher_range: "parse_ip_matcher s = Inr m \<Longrightarrow> doc_addr m"
  by (auto simp: parse_ip_matcher_def and_then_Inr_iff Let_def split: if_splits list.splits)

lemma parse_port_matcher_range: "parse_port_matcher s = Inr m \<Longrightarrow> doc_port m"
  by (auto simp: parse_port_matcher_def and_then_Inr_iff not_less split: if_splits list.splits)

lemma parse_addr_port_range: "parse_addr_port s = Inr (m, q) \<Longrightarrow> doc_addr m \<and> doc_port q"
  by (auto simp: parse_addr_port_def and_then_Inr_iff split: list.splits
      dest: parse_ip_matcher_range parse_port_matcher_range)

lemma doc_dest_DAddr: "addr_ok a \<Longrightarrow> a \<noteq> SAddr (Ipv4Addr 255 255 255 255) \<Longrightarrow>
  doc_dest (addr_den a, BcastAny)"
  unfolding doc_dest_def by (rule exI [of _ "DAddr a"]) simp

lemma doc_dest_intros [intro, simp]:
  "doc_dest (IpExact (Ipv4Addr 255 255 255 255), Limited)"
  "doc_dest (IpAny, Directed)" "doc_dest (IpAny, BcastAny)"
proof -
  show "doc_dest (IpExact (Ipv4Addr 255 255 255 255), Limited)"
    unfolding doc_dest_def by (rule exI [of _ "DAddr (SAddr (Ipv4Addr 255 255 255 255))"]) simp
  show "doc_dest (IpAny, Directed)"
    unfolding doc_dest_def by (rule exI [of _ DDirected]) simp
  show "doc_dest (IpAny, BcastAny)"
    unfolding doc_dest_def by (rule exI [of _ "DAddr SAny"]) simp
qed

lemma parse_exact_text: "parse_ip_matcher s = Inr (IpExact ip) \<Longrightarrow> s = show_ipv4 ip"
  by (auto simp: parse_ip_matcher_def and_then_Inr_iff ipv4_from_str_iff Let_def
      split: if_splits list.splits)

lemma doc_dest_BcastAny:
  assumes "parse_ip_matcher s = Inr m" and "s \<noteq> ''255.255.255.255''"
  shows "doc_dest (m, BcastAny)"
proof -
  from assms(1) obtain a where a: "addr_ok a" "addr_den a = m"
    using parse_ip_matcher_range by (auto simp: doc_addr_def)
  have "a \<noteq> SAddr (Ipv4Addr 255 255 255 255)"
    using assms a parse_exact_text [of s "Ipv4Addr 255 255 255 255"] show_limited by auto
  with a show ?thesis using doc_dest_DAddr by blast
qed

lemma parse_dest_range:
  assumes "parse_dest_addr_port s = Inr (m, q, t)"
  shows "doc_dest (m, t) \<and> doc_port q"
proof -
  define lim :: string where "lim = ''255.255.255.255''"
  define dir :: string where "dir = ''directed''"
  define any :: string where "any = ''any''"
  note names = lim_def [symmetric] dir_def [symmetric] any_def [symmetric]
  from assms obtain ip_s port_s where "split_on (CHR '':'') s = [ip_s, port_s]"
    by (cases "split_on (CHR '':'') s" rule: remdups_adj.cases)
       (auto simp: parse_dest_addr_port_def split: list.splits)
  with assms obtain q' where p: "parse_port_matcher port_s = Inr q'"
    and r: "(if ip_s = lim then Inr (IpExact (Ipv4Addr 255 255 255 255), q', Limited)
             else if ip_s = dir then Inr (IpAny, q', Directed)
             else if ip_s = any then Inr (IpAny, q', BcastAny)
             else and_then (parse_ip_matcher ip_s) (\<lambda>ip. Inr (ip, q', BcastAny))) = Inr (m, q, t)"
    unfolding parse_dest_addr_port_def names by (auto simp: and_then_Inr_iff)
  have "doc_dest (m, t)"
    using r doc_dest_BcastAny [of ip_s m, folded lim_def]
    by (auto simp: and_then_Inr_iff split: if_splits)
  moreover have "q' = q" using r by (auto simp: and_then_Inr_iff split: if_splits)
  ultimately show ?thesis using p parse_port_matcher_range by blast
qed

lemma parse_nat_opt_range: "parse_nat_opt no s = Inr no' \<Longrightarrow> \<exists>x. opt_den no x = no'"
proof -
  have *: "\<exists>x. opt_den no x = no\<lparr>source_ip := Some ip\<rparr>" "\<exists>x. opt_den no x = no\<lparr>dest_ip := Some ip\<rparr>"
    "\<exists>x. opt_den no x = no\<lparr>source_port := Some p\<rparr>" "\<exists>x. opt_den no x = no\<lparr>dest_port := Some p\<rparr>"
    for ip p
    using opt_den.simps by blast+
  assume "parse_nat_opt no s = Inr no'"
  then show ?thesis
    by (auto simp: parse_nat_opt_def and_then_Inr_iff split: option.splits intro!: *)
qed

lemma parse_nat_opts_range:
  "parse_nat_opts no ss = Inr no' \<Longrightarrow> \<exists>xs. length xs = length ss \<and> foldl opt_den no xs = no'"
proof (induction ss arbitrary: no)
  case (Cons s ss)
  then obtain no1 where 1: "parse_nat_opt no s = Inr no1" "parse_nat_opts no1 ss = Inr no'"
    by (auto simp: and_then_Inr_iff)
  from 1(1) obtain x where "opt_den no x = no1" using parse_nat_opt_range by blast
  moreover from 1(2) Cons.IH obtain xs where "length xs = length ss" "foldl opt_den no1 xs = no'"
    by blast
  ultimately have "length (x # xs) = length (s # ss) \<and> foldl opt_den no (x # xs) = no'" by simp
  then show ?case by blast
qed simp

lemma opt_den_is_some: "nat_is_some (opt_den no x)"
  by (cases x) (simp_all add: nat_is_some_def)

lemma opts_den_none: "\<not> nat_is_some (foldl opt_den no xs) \<Longrightarrow> xs = []"
  by (induction xs rule: rev_induct) (auto simp: opt_den_is_some)

lemma parse_rule_range:
  assumes "parse_rule line = Inr r"
  shows "\<exists>syn. rule_ok syn \<and> rule_den syn = r"
proof -
  from assms obtain a p s d opts act prot sip sport dip dport t no where
    w: "split_whitespace line = a # p # s # d # opts"
    and src: "parse_addr_port s = Inr (sip, sport)"
    and dst: "parse_dest_addr_port d = Inr (dip, dport, t)"
    and opts: "parse_nat_opts nat_default opts = Inr no"
    and deny: "\<not> (act = Deny \<and> nat_is_some no)"
    and r: "r = \<lparr>rule_action = act, rule_protocol = prot, rule_src_ip = sip, rule_src_port = sport,
             rule_dst_ip = dip, rule_dst_port = dport, rule_broadcast_type = t, rule_nat = no\<rparr>"
    by (auto simp: parse_rule_def and_then_Inr_iff split: list.splits if_splits prod.splits)
  from src obtain sa sp where "addr_ok sa" "port_ok sp" "addr_den sa = sip" "port_den sp = sport"
    using parse_addr_port_range [of s sip sport] by (auto simp: doc_addr_def doc_port_def)
  moreover from dst obtain da dp where "dest_ok da" "port_ok dp" "dest_den da = (dip, t)" "port_den dp = dport"
    using parse_dest_range [of d dip dport t] by (auto simp: doc_dest_def doc_port_def)
  moreover from opts obtain xs where "foldl opt_den nat_default xs = no"
    using parse_nat_opts_range by blast
  moreover from this deny have "act = Deny \<longrightarrow> xs = []" using opts_den_none by blast
  ultimately have "rule_ok \<lparr>syn_action = act, syn_protocol = prot, syn_src = sa, syn_sport = sp,
      syn_dst = da, syn_dport = dp, syn_opts = xs\<rparr> \<and>
    rule_den \<lparr>syn_action = act, syn_protocol = prot, syn_src = sa, syn_sport = sp,
      syn_dst = da, syn_dport = dp, syn_opts = xs\<rparr> = r"
    by (simp add: rule_ok_def rule_den_def r)
  then show ?thesis by blast
qed

section \<open>Properties\<close>

text \<open>The form of a rule in which a port is left out. The \<open>README\<close>, the manual page and the comments of the
  example files present it as legal; the code refuses it, whatever the rest of the rule is.\<close>

definition show_side :: "bool \<Rightarrow> string \<Rightarrow> string \<Rightarrow> string" where
  "show_side with_port addr port = (if with_port then addr @ CHR '':'' # port else addr)"

definition show_short_rule :: "bool \<Rightarrow> bool \<Rightarrow> rule_syn \<Rightarrow> string" where
  "show_short_rule src_port dst_port r = unwords
     ([show_action (syn_action r), show_protocol (syn_protocol r),
       show_side src_port (show_addr (syn_src r)) (show_port (syn_sport r)),
       show_side dst_port (show_dest (syn_dst r)) (show_port (syn_dport r))] @ map show_opt (syn_opts r))"

lemma portless_rule_refused:
  assumes "rule_ok r" and "\<not> (src_port \<and> dst_port)"
  shows "parse_rule (show_short_rule src_port dst_port r) = Inl [''Invalid address:port format: '' @
    (if src_port then show_dest (syn_dst r) else show_addr (syn_src r))]"
proof -
  let ?s = "show_side src_port (show_addr (syn_src r)) (show_port (syn_sport r))"
  let ?d = "show_side dst_port (show_dest (syn_dst r)) (show_port (syn_dport r))"
  have tok: "token (show_side p a q)" if "token (a @ CHR '':'' # q)" "a \<noteq> []" for p a q
    using that by (auto simp: show_side_def token_def)
  have addr: "show_addr a \<noteq> []" for a by (cases a) simp_all
  then have ne: "show_addr (syn_src r) \<noteq> []" "show_dest (syn_dst r) \<noteq> []"
    by (simp, cases "syn_dst r") simp_all
  have w: "split_whitespace (show_short_rule src_port dst_port r) =
      [show_action (syn_action r), show_protocol (syn_protocol r), ?s, ?d] @ map show_opt (syn_opts r)"
    unfolding show_short_rule_def by (rule split_whitespace_unwords) (auto intro: tok simp: ne)
  show ?thesis
  proof (cases src_port)
    case False
    then show ?thesis unfolding parse_rule_def w by (simp add: show_side_def parse_addr_port_def)
  next
    case True
    have "parse_addr_port ?s = Inr (addr_den (syn_src r), port_den (syn_sport r))"
      using assms(1) True by (simp add: show_side_def rule_ok_def)
    moreover have "parse_dest_addr_port ?d = Inl [''Invalid address:port format: '' @ show_dest (syn_dst r)]"
      using True assms(2) by (simp add: show_side_def parse_dest_addr_port_def)
    ultimately show ?thesis using True unfolding parse_rule_def w by simp
  qed
qed

text \<open>C16: a configuration file of documented rules with both ports written out (the parser accepts no
  other form), printed one per line, with any comments and blank lines between them, is accepted, and
  its rules are the denotations of the printed ones in order.\<close>

theorem config_file_roundtrip:
  assumes "list_all line_ok ls"
  shows "parse (config_text ls) = Inr \<lparr>rules = concat (map line_rules ls)\<rparr>"
  using assms by (rule parse_config_text)

definition sample_rule :: rule_syn where
  "sample_rule = \<lparr>syn_action = Allow, syn_protocol = Udp, syn_src = SCidr (Ipv4Addr 192 168 1 0) 24,
     syn_sport = PAny, syn_dst = DAddr (SAddr (Ipv4Addr 255 255 255 255)), syn_dport = PRange 5000 6000,
     syn_opts = [OSnat (Ipv4Addr 10 0 0 1), ODport 9]\<rparr>"

theorem config_file_roundtrip_witness:
  "parse (config_text [LComment ''allow'', LRule sample_rule, LBlank, LRule sample_rule]) =
     Inr \<lparr>rules = [rule_den sample_rule, rule_den sample_rule]\<rparr>"
  using config_file_roundtrip [of "[LComment ''allow'', LRule sample_rule, LBlank, LRule sample_rule]"]
  by (simp add: rule_ok_def sample_rule_def)

text \<open>C17: every rule that the parser returns, for any line, is the denotation of a documented rule:
  prefix lengths and port ranges are in bounds, the broadcast type agrees with the destination, and a
  deny rule carries no NAT options.\<close>

theorem parser_only_documented:
  assumes "parse_rule line = Inr r"
  shows "\<exists>syn. rule_ok syn \<and> rule_den syn = r"
  using assms by (rule parse_rule_range)

theorem parser_only_documented_witness:
  "parse_rule (show_rule sample_rule) = Inr (rule_den sample_rule) \<and>
   (\<exists>syn. rule_ok syn \<and> rule_den syn = rule_den sample_rule)"
proof -
  have p: "parse_rule (show_rule sample_rule) = Inr (rule_den sample_rule)"
    by (rule parse_rule_show) (simp add: rule_ok_def sample_rule_def)
  from parser_only_documented [OF p] p show ?thesis by simp
qed

text \<open>An address matcher is an exact match for \<open>ip\<close> exactly if its text is the canonical dotted
  quad of \<open>ip\<close>: no leading zeros, no blanks, four parts.\<close>

theorem exact_address_text: "parse_ip_matcher s = Inr (IpExact ip) \<longleftrightarrow> s = show_ipv4 ip"
  using parse_exact_text [of s ip] parse_ip_matcher_show [of "SAddr ip"] by auto

text \<open>C33: a prefix \<open>a.b.c.d/n\<close> is parsed to a matcher for exactly the \<open>2 ^ (32 - n)\<close> addresses from
  the network address on, for every \<open>n\<close> from 0 to 32.\<close>

theorem cidr_interval:
  assumes "n \<le> 32" and "parse_ip_matcher (show_addr (SCidr net n)) = Inr m"
  shows "IpMatcher_matches m ip \<longleftrightarrow>
    prefix_base net n \<le> unat (ip_u32 ip) \<and> unat (ip_u32 ip) < prefix_base net n + 2 ^ (32 - n)"
proof -
  have "m = addr_den (SCidr net n)"
    using assms parse_ip_matcher_show [of "SCidr net n"] by (simp del: show_addr.simps addr_den.simps)
  then show ?thesis using Cidr_matches_interval [OF assms(1), of net ip] by simp
qed

theorem cidr_interval_witness:
  "\<exists>m. parse_ip_matcher (show_addr (SCidr (Ipv4Addr 10 1 2 3) 8)) = Inr m \<and>
     IpMatcher_matches m (Ipv4Addr 10 255 0 7) \<and> \<not> IpMatcher_matches m (Ipv4Addr 11 0 0 0)"
proof -
  have n: "(8 :: nat) \<le> 32" by simp
  have p: "parse_ip_matcher (show_addr (SCidr (Ipv4Addr 10 1 2 3) 8)) =
      Inr (addr_den (SCidr (Ipv4Addr 10 1 2 3) 8))"
    by (rule parse_ip_matcher_show) simp
  have v: "unat (ip_u32 (Ipv4Addr 10 1 2 3)) = 167838211" "unat (ip_u32 (Ipv4Addr 10 255 0 7)) = 184483847"
    "unat (ip_u32 (Ipv4Addr 11 0 0 0)) = 184549376"
    by simp_all
  then show ?thesis
    using p cidr_interval [OF n p, of "Ipv4Addr 10 255 0 7"] cidr_interval [OF n p, of "Ipv4Addr 11 0 0 0"]
    unfolding prefix_base_def v by (intro exI conjI) simp_all
qed

end
