(* ===== verification/Bcr_Tests_Config.thy ===== *)
theory Bcr_Tests_Config
  imports Bcr_Grammar
begin

text \<open>
  The unit tests of \<open>src/src/config.rs\<close>, translated, with the shipped example configurations they read.
  A test is a computation that panics if one of its assertions fails; \<open>config_tests_pass\<close> shows that
  none does, which ties the model of the parser to the expectations its authors wrote down.
\<close>

section \<open>Definitions\<close>

text \<open>A sequence of assertions, \<open>Result::err\<close> and \<open>unwrap\<close> of a \<open>Result\<close>, and \<open>str::contains\<close>.\<close>

definition asserts :: "bool list \<Rightarrow> unit outcome" where
  "asserts bs = (if list_all id bs then Ret () else Panic)"

definition err :: "'a result \<Rightarrow> anyhow option" where
  "err r = (case r of Inl e \<Rightarrow> Some e | Inr _ \<Rightarrow> None)"

definition unwrap_ok :: "'a result \<Rightarrow> 'a outcome" where
  "unwrap_ok r = (case r of Inl e \<Rightarrow> Panic | Inr v \<Rightarrow> Ret v)"

fun str_contains :: "string \<Rightarrow> string \<Rightarrow> bool" where
  "str_contains pat [] = (pat = [])"
| "str_contains pat (c # s) = (take (length pat) (c # s) = pat \<or> str_contains pat s)"

definition rejected_with :: "string \<Rightarrow> Config result \<Rightarrow> unit outcome" where
  "rejected_with pat result =
     seq (unwrap (err result)) (\<lambda>e. asserts [str_contains pat (display_error e)])"

definition test_parse_simple_allow_rule :: "unit outcome" where
  "test_parse_simple_allow_rule =
     seq (unwrap_ok (parse ''allow udp any:137-139 255.255.255.255:137-139'')) (\<lambda>cfg.
       asserts [length (rules cfg) = 1, rule_action (rules cfg ! 0) = Allow,
                rule_protocol (rules cfg ! 0) = Udp])"

definition test_tcp_protocol_rejected :: "unit outcome" where
  "test_tcp_protocol_rejected =
     rejected_with ''TCP is not supported'' (parse ''allow tcp any:80 255.255.255.255:80'')"

definition test_parse_with_nat :: "unit outcome" where
  "test_parse_with_nat =
     seq (unwrap_ok (parse ''allow udp 192.168.1.0/24:1900 255.255.255.255:1900 snat=10.0.0.1'')) (\<lambda>cfg.
       asserts [length (rules cfg) = 1,
                source_ip (rule_nat (rules cfg ! 0)) = Some (Ipv4Addr 10 0 0 1)])"

definition example_configs_parse :: "(string \<Rightarrow> string result) \<Rightarrow> string \<Rightarrow> unit outcome" where
  "example_configs_parse read_to_string manifest_dir =
     foldr (\<lambda>name rest. seq (unwrap_ok (from_file read_to_string (manifest_dir @ ''/'' @ name))) (\<lambda>_. rest))
       [''examples/sample.conf'', ''examples/test.conf''] (Ret ())"

definition test_misspelled_nat_option_rejected :: "unit outcome" where
  "test_misspelled_nat_option_rejected =
     rejected_with ''Unknown option''
       (parse ''allow udp 192.168.1.0/24:1900 255.255.255.255:1900 snnat=10.0.0.1'')"

definition test_invalid_nat_value_rejected :: "unit outcome" where
  "test_invalid_nat_value_rejected =
     rejected_with ''Invalid snat address''
       (parse ''allow udp any:1900 255.255.255.255:1900 snat=not-an-ip'')"

definition test_nat_on_deny_rule_rejected :: "unit outcome" where
  "test_nat_on_deny_rule_rejected =
     rejected_with ''not allowed on a deny rule'' (parse ''deny udp any:any any:any snat=10.0.0.1'')"

definition test_inverted_port_range_rejected :: "unit outcome" where
  "test_inverted_port_range_rejected =
     rejected_with ''greater than end'' (parse ''allow udp any:139-137 255.255.255.255:any'')"

definition test_ip_matcher_cidr :: "unit outcome" where
  "test_ip_matcher_cidr =
     (let matcher = Cidr (ip_u32 (Ipv4Addr 192 168 1 0)) (push_bit 8 (NOT 0)) in
      asserts [IpMatcher_matches matcher (Ipv4Addr 192 168 1 100),
               \<not> IpMatcher_matches matcher (Ipv4Addr 192 168 2 100)])"

definition test_port_matcher_range :: "unit outcome" where
  "test_port_matcher_range =
     (let matcher = PortRange 137 139 in
      asserts [PortMatcher_matches matcher 138, \<not> PortMatcher_matches matcher 140])"

text \<open>The example files, line by line, and a file system that holds them.\<close>

definition sample_conf :: "string list" where
  \<open>sample_conf = [
     ''# bcr.conf '' @ [CHR 0xE2, CHR 0x80, CHR 0x94] @ '' Broadcast Relay configuration'',
     ''#'',
     ''# Rule format:'',
     ''#   ACTION PROTO SRC_IP[:SRC_PORT] DST_IP[:DST_PORT] [NAT_OPTIONS]'',
     ''#'',
     ''#   ACTION    allow | deny'',
     ''#   PROTO     udp | any            (TCP is not relayed)'',
     ''#   SRC_IP    x.x.x.x | x.x.x.x/n | any'',
     ''#   DST_IP    x.x.x.x | x.x.x.x/n | 255.255.255.255 | directed | any'',
     ''#   *_PORT    port | start-end | any'',
     ''#'',
     ''#   NAT_OPTIONS (optional, allow rules only):'',
     ''#     snat=IP     rewrite source IP'',
     ''#     dnat=IP     rewrite destination IP'',
     ''#     sport=PORT  rewrite source port'',
     ''#     dport=PORT  rewrite destination port'',
     ''#'',
     ''# Rules are evaluated top-to-bottom; the FIRST match wins.'',
     ''#'',
     ''# Deny-by-default is built in: any packet that matches no rule is dropped.'',
     ''# You do NOT need a trailing "deny any any:any any:any" '' @ [CHR 0xE2, CHR 0x80, CHR 0x94] @ '' it is redundant.'',
     ''#'',
     ''# Parsing is strict: typos, bad values, inverted port ranges, and NAT options'',
     ''# on a deny rule are startup errors, not silent no-ops. Start bcr once after'',
     ''# editing to confirm the config loads.'',
     ''#'',
     ''# Keep this file as tight as possible: a broadcast relay moves traffic between'',
     ''# segments that are otherwise isolated, so only allow what you actually need.'',
     [],
     ''# --- Windows / SMB discovery -------------------------------------------------'',
     ''# NetBIOS name service, datagram service, and session service.'',
     ''allow udp any:137-139 255.255.255.255:137-139'',
     [],
     ''# --- DHCP --------------------------------------------------------------------'',
     ''# Relay DHCP discover/offer broadcasts. Scope SRC_IP if you can.'',
     ''allow udp any:67-68 255.255.255.255:67-68'',
     [],
     ''# --- Zero-config / service discovery (multicast) -----------------------------'',
     ''# mDNS / Bonjour / Avahi'',
     ''allow udp any:5353 224.0.0.251:5353'',
     ''# SSDP / UPnP'',
     ''allow udp any:1900 239.255.255.250:1900'',
     [],
     ''# --- Directed broadcasts from a trusted subnet -------------------------------'',
     ''# Relay subnet-directed broadcasts that originate from 10.0.0.0/24.'',
     ''allow udp 10.0.0.0/24:any directed:any'',
     [],
     ''# --- Example with source NAT -------------------------------------------------'',
     ''# Relay SSDP from 192.168.1.0/24 but masquerade the source as the relay's'',
     ''# address on the destination segment.'',
     ''# allow udp 192.168.1.0/24:1900 255.255.255.255:1900 snat=10.0.0.1'']\<close>

definition test_conf :: "string list" where
  \<open>test_conf = [
     ''# Minimal test config '' @ [CHR 0xE2, CHR 0x80, CHR 0x94] @ '' used by the README veth walkthrough.'',
     ''#'',
     ''# Allows all UDP broadcast and multicast so you can verify relaying end to end.'',
     ''# This is intentionally permissive; do not use it in production.'',
     ''#'',
     ''# (Deny-by-default is built in, so no trailing "deny" rule is needed.)'',
     [],
     ''# Limited broadcast (e.g. the README's test to 255.255.255.255:9999)'',
     ''allow udp any:any 255.255.255.255:any'',
     [],
     ''# Subnet-directed broadcasts (e.g. 192.168.100.255)'',
     ''allow udp any:any directed:any'',
     [],
     ''# Multicast (mDNS, SSDP, ...)'',
     ''allow udp any:any 224.0.0.0/4:any'']\<close>

definition repo_files :: "string \<Rightarrow> string \<Rightarrow> string result" where
  "repo_files manifest_dir path =
     (if path = manifest_dir @ ''/examples/sample.conf'' then Inr (unlines sample_conf)
      else if path = manifest_dir @ ''/examples/test.conf'' then Inr (unlines test_conf)
      else Inl [''No such file or directory''])"

definition config_tests :: "(string \<Rightarrow> string result) \<Rightarrow> string \<Rightarrow> unit outcome list" where
  "config_tests read_to_string manifest_dir =
     [test_parse_simple_allow_rule, test_tcp_protocol_rejected, test_parse_with_nat,
      example_configs_parse read_to_string manifest_dir, test_misspelled_nat_option_rejected,
      test_invalid_nat_value_rejected, test_nat_on_deny_rule_rejected, test_inverted_port_range_rejected,
      test_ip_matcher_cidr, test_port_matcher_range]"

section \<open>One-line configurations\<close>

lemma lines_go_last: "CHR 0x0A \<notin> set s \<Longrightarrow> lines_go acc s = flush (acc @ s) []"
  by (induction s arbitrary: acc) auto

lemma digit_chars:
  "digit_char 0 = CHR ''0''" "digit_char (Suc 0) = CHR ''1''" "digit_char 1 = CHR ''1''" "digit_char 2 = CHR ''2''"
  "digit_char 3 = CHR ''3''" "digit_char 4 = CHR ''4''" "digit_char 5 = CHR ''5''" "digit_char 6 = CHR ''6''"
  "digit_char 7 = CHR ''7''" "digit_char 8 = CHR ''8''" "digit_char 9 = CHR ''9''"
  unfolding digit_char_def by code_simp+

lemma parse_unwords:
  assumes "list_all token ts" "ts \<noteq> []" "hd (hd ts) \<noteq> CHR ''#''"
  shows "parse (unwords ts) =
    (case parse_rule (unwords ts) of Inr r \<Rightarrow> Inr \<lparr>rules = [r]\<rparr>
     | Inl e \<Rightarrow> Inl [''Config parse error at line 1: '' @ display_error e])"
proof -
  have tok: "\<forall>t\<in>set ts. token t" using assms(1) by (simp add: list_all_iff)
  have "CHR 0x0A \<notin> set (unwords ts)" using unwords_chars [OF tok] by fastforce
  moreover have "\<not> skip_line (unwords ts)" "unwords ts \<noteq> []"
    using unwords_ends [OF assms(2) tok] assms(3) by (simp_all add: skip_line_def)
  ultimately show ?thesis using tok
    by (simp add: parse_def lines_def lines_go_last flush_def Let_def digit_chars split: sum.split)
qed

lemmas token_simps = token_def graphic_def byte_def

lemmas show_simps = show_rule_def show_word_def show_nat_step digit_chars

lemma parse_show_rule:
  assumes "rule_ok r"
  shows "parse (show_rule r) = Inr \<lparr>rules = [rule_den r]\<rparr>"
proof -
  have "show_rule r \<noteq> []" using show_rule_line(4) [of r] by (auto simp: skip_line_def)
  then show ?thesis
    using parse_rule_show [OF assms] show_rule_line [of r]
    by (simp add: parse_def lines_def lines_go_last flush_def Let_def)
qed

section \<open>The tests pass\<close>

definition netbios_rule :: rule_syn where
  "netbios_rule = \<lparr>syn_action = Allow, syn_protocol = Udp, syn_src = SAny, syn_sport = PRange 137 139,
     syn_dst = DAddr (SAddr (Ipv4Addr 255 255 255 255)), syn_dport = PRange 137 139, syn_opts = []\<rparr>"

lemma netbios_text: "''allow udp any:137-139 255.255.255.255:137-139'' = show_rule netbios_rule"
  by (simp add: netbios_rule_def show_simps)

lemma simple_allow_rule_passes: "test_parse_simple_allow_rule = Ret ()"
proof -
  have "rule_ok netbios_rule" by (simp add: netbios_rule_def rule_ok_def)
  from parse_show_rule [OF this] show ?thesis
    unfolding test_parse_simple_allow_rule_def netbios_text
    by (simp add: unwrap_ok_def asserts_def rule_den_def netbios_rule_def)
qed

definition ssdp_rule :: rule_syn where
  "ssdp_rule = \<lparr>syn_action = Allow, syn_protocol = Udp, syn_src = SCidr (Ipv4Addr 192 168 1 0) 24,
     syn_sport = PPort 1900, syn_dst = DAddr (SAddr (Ipv4Addr 255 255 255 255)), syn_dport = PPort 1900,
     syn_opts = [OSnat (Ipv4Addr 10 0 0 1)]\<rparr>"

lemma ssdp_text:
  "''allow udp 192.168.1.0/24:1900 255.255.255.255:1900 snat=10.0.0.1'' = show_rule ssdp_rule"
  by (simp add: ssdp_rule_def show_simps)

lemma with_nat_passes: "test_parse_with_nat = Ret ()"
proof -
  have "rule_ok ssdp_rule" by (simp add: ssdp_rule_def rule_ok_def)
  from parse_show_rule [OF this] show ?thesis
    unfolding test_parse_with_nat_def ssdp_text
    by (simp add: unwrap_ok_def asserts_def rule_den_def ssdp_rule_def)
qed

text \<open>The rejected lines: their tokens, up to the part that is refused.\<close>

lemma parse_rejects:
  assumes "s = unwords ts" "list_all token ts" "ts \<noteq> []" "hd (hd ts) \<noteq> CHR ''#''" "parse_rule (unwords ts) = Inl e"
    and "str_contains pat (''Config parse error at line 1: '' @ display_error e)"
  shows "rejected_with pat (parse s) = Ret ()"
  using parse_unwords [OF assms(2-4)] assms(1,5,6)
  by (simp add: rejected_with_def err_def unwrap_def asserts_def display_error_def)

lemma tcp_passes: "test_tcp_protocol_rejected = Ret ()"
  unfolding test_tcp_protocol_rejected_def
proof (rule parse_rejects)
  show "''allow tcp any:80 255.255.255.255:80'' = unwords [''allow'', ''tcp'', ''any:80'', ''255.255.255.255:80'']"
    by simp
  show tok: "list_all token [''allow'', ''tcp'', ''any:80'', ''255.255.255.255:80'']" by (simp add: token_simps)
  then show "parse_rule (unwords [''allow'', ''tcp'', ''any:80'', ''255.255.255.255:80'']) =
      Inl [''TCP is not supported: TCP has no broadcast/multicast semantics and is not relayed'']"
    unfolding parse_rule_def by (subst split_whitespace_unwords) (simp_all add: list_all_iff parse_action_def parse_protocol_def)
qed (simp_all add: display_error_def)

lemma parse_rule_unwords:
  assumes "list_all token (a # p # src # dst # opts)"
  shows "parse_rule (unwords (a # p # src # dst # opts)) =
    and_then (parse_action a) (\<lambda>action.
    and_then (parse_protocol p) (\<lambda>protocol.
    and_then (parse_addr_port src) (\<lambda>(src_ip, src_port).
    and_then (parse_dest_addr_port dst) (\<lambda>(dst_ip, dst_port, broadcast_type).
    and_then (parse_nat_opts nat_default opts) (\<lambda>no.
    if action = Deny \<and> nat_is_some no then Inl [''NAT options are not allowed on a deny rule'']
    else Inr \<lparr>rule_action = action, rule_protocol = protocol, rule_src_ip = src_ip, rule_src_port = src_port,
      rule_dst_ip = dst_ip, rule_dst_port = dst_port, rule_broadcast_type = broadcast_type, rule_nat = no\<rparr>)))))"
  using assms split_whitespace_unwords [of "a # p # src # dst # opts"]
  by (simp add: parse_rule_def list_all_iff del: unwords.simps)

lemma keyword_results:
  "parse_action ''allow'' = Inr Allow" "parse_action ''deny'' = Inr Deny" "parse_protocol ''udp'' = Inr Udp"
  by (simp_all add: parse_action_def parse_protocol_def)

lemma source_cidr: "parse_addr_port ''192.168.1.0/24:1900'' = Inr (addr_den (SCidr (Ipv4Addr 192 168 1 0) 24), PortExact 1900)"
proof -
  have e: "''192.168.1.0/24:1900'' = show_addr (SCidr (Ipv4Addr 192 168 1 0) 24) @ CHR '':'' # show_port (PPort 1900)" by (simp add: show_simps)
  show ?thesis unfolding e by (subst parse_addr_port_show) simp_all
qed

lemma source_port: "parse_addr_port ''any:1900'' = Inr (IpAny, PortExact 1900)"
proof -
  have e: "''any:1900'' = show_addr (SAny) @ CHR '':'' # show_port (PPort 1900)" by (simp add: show_simps)
  show ?thesis unfolding e by (subst parse_addr_port_show) simp_all
qed

lemma source_any: "parse_addr_port ''any:any'' = Inr (IpAny, PortAny)"
proof -
  have e: "''any:any'' = show_addr (SAny) @ CHR '':'' # show_port (PAny)" by (simp add: show_simps)
  show ?thesis unfolding e by (subst parse_addr_port_show) simp_all
qed

lemma dest_limited: "parse_dest_addr_port ''255.255.255.255:1900'' = Inr (IpExact (Ipv4Addr 255 255 255 255), PortExact 1900, Limited)"
proof -
  have e: "''255.255.255.255:1900'' = show_dest (DAddr (SAddr (Ipv4Addr 255 255 255 255))) @ CHR '':'' # show_port (PPort 1900)" by (simp add: show_simps)
  show ?thesis unfolding e by (subst parse_dest_show) simp_all
qed

lemma dest_any: "parse_dest_addr_port ''any:any'' = Inr (IpAny, PortAny, BcastAny)"
proof -
  have e: "''any:any'' = show_dest (DAddr SAny) @ CHR '':'' # show_port (PAny)" by (simp add: show_simps)
  show ?thesis unfolding e by (subst parse_dest_show) simp_all
qed

lemma misspelled_passes: "test_misspelled_nat_option_rejected = Ret ()"
  unfolding test_misspelled_nat_option_rejected_def
proof (rule parse_rejects)
  let ?ts = "[''allow'', ''udp'', ''192.168.1.0/24:1900'', ''255.255.255.255:1900'', ''snnat=10.0.0.1'']"
  show "''allow udp 192.168.1.0/24:1900 255.255.255.255:1900 snnat=10.0.0.1'' = unwords ?ts" by simp
  show tok: "list_all token ?ts" by (simp add: token_simps)
  have "parse_nat_opts nat_default [''snnat=10.0.0.1''] = Inl [''Unknown option '' @ [CHR 0x27] @ ''snnat=10.0.0.1'' @
      [CHR 0x27] @ '' (expected snat=, dnat=, sport=, or dport=)'']"
    by (simp add: parse_nat_opt_def strip_prefix_def)
  then show "parse_rule (unwords ?ts) = Inl [''Unknown option '' @ [CHR 0x27] @ ''snnat=10.0.0.1'' @ [CHR 0x27] @
      '' (expected snat=, dnat=, sport=, or dport=)'']"
    unfolding parse_rule_unwords [OF tok] keyword_results source_cidr dest_limited by simp
qed (simp_all add: display_error_def)

lemma invalid_value_passes: "test_invalid_nat_value_rejected = Ret ()"
  unfolding test_invalid_nat_value_rejected_def
proof (rule parse_rejects)
  let ?ts = "[''allow'', ''udp'', ''any:1900'', ''255.255.255.255:1900'', ''snat=not-an-ip'']"
  show "''allow udp any:1900 255.255.255.255:1900 snat=not-an-ip'' = unwords ?ts" by simp
  show tok: "list_all token ?ts" by (simp add: token_simps)
  have "ipv4_from_str ''not-an-ip'' = Inl addr_parse_error"
    by (simp add: ipv4_from_str_def read_ipv4_addr_def read_octet_def)
  then have "parse_nat_opts nat_default [''snat=not-an-ip''] =
      Inl (''Invalid snat address: not-an-ip'' # addr_parse_error)"
    by (simp add: parse_nat_opt_def strip_prefix_def)
  then show "parse_rule (unwords ?ts) = Inl (''Invalid snat address: not-an-ip'' # addr_parse_error)"
    unfolding parse_rule_unwords [OF tok] keyword_results source_port dest_limited by simp
qed (simp_all add: display_error_def)

lemma nat_on_deny_passes: "test_nat_on_deny_rule_rejected = Ret ()"
  unfolding test_nat_on_deny_rule_rejected_def
proof (rule parse_rejects)
  let ?ts = "[''deny'', ''udp'', ''any:any'', ''any:any'', ''snat=10.0.0.1'']"
  show "''deny udp any:any any:any snat=10.0.0.1'' = unwords ?ts" by simp
  show tok: "list_all token ?ts" by (simp add: token_simps)
  have e: "[''snat=10.0.0.1''] = map show_opt [OSnat (Ipv4Addr 10 0 0 1)]" by (simp add: show_simps)
  have "parse_nat_opts nat_default [''snat=10.0.0.1''] = Inr (nat_default\<lparr>source_ip := Some (Ipv4Addr 10 0 0 1)\<rparr>)"
    unfolding e by (subst parse_nat_opts_show) simp
  then show "parse_rule (unwords ?ts) = Inl [''NAT options are not allowed on a deny rule'']"
    unfolding parse_rule_unwords [OF tok] keyword_results source_any dest_any by (simp add: nat_is_some_def)
qed (simp_all add: display_error_def)

lemma inverted_range_passes: "test_inverted_port_range_rejected = Ret ()"
  unfolding test_inverted_port_range_rejected_def
proof (rule parse_rejects)
  let ?ts = "[''allow'', ''udp'', ''any:139-137'', ''255.255.255.255:any'']"
  show "''allow udp any:139-137 255.255.255.255:any'' = unwords ?ts" by simp
  show tok: "list_all token ?ts" by (simp add: token_simps)
  have e: "''139'' = show_word (139 :: u16)" "''137'' = show_word (137 :: u16)" by (simp_all add: show_simps)
  have "parse_u16 ''139'' = Inr 139" "parse_u16 ''137'' = Inr 137" unfolding e by (rule parse_u16_show_word)+
  then have "parse_port_matcher ''139-137'' =
      Inl [''Invalid port range: start '' @ show_word (139 :: u16) @ '' is greater than end '' @ show_word (137 :: u16)]"
    by (simp add: parse_port_matcher_def)
  then have "parse_addr_port ''any:139-137'' =
      Inl [''Invalid port range: start '' @ show_word (139 :: u16) @ '' is greater than end '' @ show_word (137 :: u16)]"
    by (simp add: parse_addr_port_def parse_ip_matcher_def)
  then show "parse_rule (unwords ?ts) =
      Inl [''Invalid port range: start '' @ show_word (139 :: u16) @ '' is greater than end '' @ show_word (137 :: u16)]"
    unfolding parse_rule_unwords [OF tok] keyword_results by simp
qed (simp_all add: display_error_def show_simps)

text \<open>The example files consist of documented lines.\<close>

definition udp_rule :: "addr_syn \<Rightarrow> port_syn \<Rightarrow> dest_syn \<Rightarrow> port_syn \<Rightarrow> rule_syn" where
  "udp_rule src sport dst dport = \<lparr>syn_action = Allow, syn_protocol = Udp, syn_src = src, syn_sport = sport,
     syn_dst = dst, syn_dport = dport, syn_opts = []\<rparr>"

lemma documented_udp_rule: "s = show_rule (udp_rule a p d q) \<Longrightarrow> rule_ok (udp_rule a p d q) \<Longrightarrow> documented_line s"
  using documented_rule by simp

lemmas udp_rule_simps = udp_rule_def rule_ok_def show_simps

lemma example_rules:
  "documented_line ''allow udp any:137-139 255.255.255.255:137-139''"
  "documented_line ''allow udp any:67-68 255.255.255.255:67-68''"
  "documented_line ''allow udp any:5353 224.0.0.251:5353''"
  "documented_line ''allow udp any:1900 239.255.255.250:1900''"
  "documented_line ''allow udp 10.0.0.0/24:any directed:any''"
  "documented_line ''allow udp any:any 255.255.255.255:any''"
  "documented_line ''allow udp any:any directed:any''"
  "documented_line ''allow udp any:any 224.0.0.0/4:any''"
proof -
  let ?bcast = "DAddr (SAddr (Ipv4Addr 255 255 255 255))"
  show "documented_line ''allow udp any:137-139 255.255.255.255:137-139''"
    by (rule documented_udp_rule [of _ SAny "PRange 137 139" ?bcast "PRange 137 139"]) (simp_all add: udp_rule_simps)
  show "documented_line ''allow udp any:67-68 255.255.255.255:67-68''"
    by (rule documented_udp_rule [of _ SAny "PRange 67 68" ?bcast "PRange 67 68"]) (simp_all add: udp_rule_simps)
  show "documented_line ''allow udp any:5353 224.0.0.251:5353''"
    by (rule documented_udp_rule [of _ SAny "PPort 5353" "DAddr (SAddr (Ipv4Addr 224 0 0 251))" "PPort 5353"])
      (simp_all add: udp_rule_simps)
  show "documented_line ''allow udp any:1900 239.255.255.250:1900''"
    by (rule documented_udp_rule [of _ SAny "PPort 1900" "DAddr (SAddr (Ipv4Addr 239 255 255 250))" "PPort 1900"])
      (simp_all add: udp_rule_simps)
  show "documented_line ''allow udp 10.0.0.0/24:any directed:any''"
    by (rule documented_udp_rule [of _ "SCidr (Ipv4Addr 10 0 0 0) 24" PAny DDirected PAny]) (simp_all add: udp_rule_simps)
  show "documented_line ''allow udp any:any 255.255.255.255:any''"
    by (rule documented_udp_rule [of _ SAny PAny ?bcast PAny]) (simp_all add: udp_rule_simps)
  show "documented_line ''allow udp any:any directed:any''"
    by (rule documented_udp_rule [of _ SAny PAny DDirected PAny]) (simp_all add: udp_rule_simps)
  show "documented_line ''allow udp any:any 224.0.0.0/4:any''"
    by (rule documented_udp_rule [of _ SAny PAny "DAddr (SCidr (Ipv4Addr 224 0 0 0) 4)" PAny]) (simp_all add: udp_rule_simps)
qed

lemma sample_conf_documented: "list_all documented_line sample_conf"
  unfolding sample_conf_def append.simps list.pred_inject
  by (intro conjI example_rules documented_blank documented_comment TrueI) simp_all

lemma test_conf_documented: "list_all documented_line test_conf"
  unfolding test_conf_def append.simps list.pred_inject
  by (intro conjI example_rules documented_blank documented_comment TrueI) simp_all

lemma cidr_passes: "test_ip_matcher_cidr = Ret ()"
  unfolding test_ip_matcher_cidr_def by code_simp

lemma range_passes: "test_port_matcher_range = Ret ()"
  unfolding test_port_matcher_range_def by code_simp

lemma example_configs_pass: "example_configs_parse (repo_files dir) dir = Ret ()"
proof -
  obtain c1 c2 where "parse (unlines sample_conf) = Inr c1" "parse (unlines test_conf) = Inr c2"
    using parse_documented_lines sample_conf_documented test_conf_documented by blast
  then show ?thesis
    by (simp add: example_configs_parse_def from_file_def repo_files_def unwrap_ok_def)
qed

lemma config_tests_pass: "list_all (\<lambda>t. t = Ret ()) (config_tests (repo_files dir) dir)"
  by (simp add: config_tests_def simple_allow_rule_passes tcp_passes with_nat_passes example_configs_pass
      misspelled_passes invalid_value_passes nat_on_deny_passes inverted_range_passes cidr_passes range_passes)

end
