(* ===== verification/Bcr_Tests.thy ===== *)
theory Bcr_Tests
  imports Bcr_Builders Bcr_Tests_Config Bcr_Relay
begin

text \<open>
  The unit tests of \<open>src/src/packet.rs\<close>, \<open>nat.rs\<close>, \<open>ratelimit.rs\<close>, \<open>relay.rs\<close> and \<open>socket.rs\<close>, translated;
  those of \<open>config.rs\<close> are in \<open>Bcr_Tests_Config\<close>. A test is a computation that panics if an assertion
  fails or if the code that it calls panics. \<open>P\<close> and \<open>Q\<close> are the \<open>pnet\<close> functions; the limiter's tests
  take the readings of the clock. \<open>packet_tests_pass\<close> and \<open>other_tests_pass\<close> show that none panics.
\<close>

section \<open>packet.rs\<close>

text \<open>Assertions on the result of a computation that may panic itself.\<close>

fun assert_all :: "bool outcome list \<Rightarrow> unit outcome" where
  "assert_all [] = Ret ()"
| "assert_all (r # rs) = seq r (\<lambda>ok. if ok then assert_all rs else Panic)"

definition is_none :: "'a option outcome \<Rightarrow> bool outcome" where
  "is_none r = seq r (\<lambda>x. Ret (x = None))"

definition is_some :: "'a option outcome \<Rightarrow> bool outcome" where
  "is_some r = seq r (\<lambda>x. Ret (x \<noteq> None))"

definition test_is_broadcast :: "unit outcome" where
  "test_is_broadcast = asserts
     [is_broadcast (Ipv4Addr 255 255 255 255), is_broadcast (Ipv4Addr 192 168 1 255),
      \<not> is_broadcast (Ipv4Addr 192 168 1 100), is_broadcast (Ipv4Addr 224 0 0 251),
      is_broadcast (Ipv4Addr 239 255 255 250), \<not> is_broadcast (Ipv4Addr 10 20 1 173)]"

definition test_rejects_multicast_source :: "pnet \<Rightarrow> pnet_setters \<Rightarrow> unit outcome" where
  "test_rejects_multicast_source P Q =
     seq (build_udp P Q (Ipv4Addr 224 0 0 251) (Ipv4Addr 224 0 0 251)) (\<lambda>mcast_to_mcast.
     seq (assert_all [is_none (extract_packet_info P mcast_to_mcast)]) (\<lambda>_.
     seq (build_udp P Q (Ipv4Addr 239 255 255 250) (Ipv4Addr 255 255 255 255)) (\<lambda>mcast_to_bcast.
     assert_all [is_none (extract_packet_info P mcast_to_bcast)])))"

definition test_rejects_broadcast_source :: "pnet \<Rightarrow> pnet_setters \<Rightarrow> unit outcome" where
  "test_rejects_broadcast_source P Q =
     seq (build_udp P Q (Ipv4Addr 255 255 255 255) (Ipv4Addr 255 255 255 255)) (\<lambda>bcast_src.
     seq (assert_all [is_none (extract_packet_info P bcast_src)]) (\<lambda>_.
     seq (build_udp P Q (Ipv4Addr 192 168 1 255) (Ipv4Addr 255 255 255 255)) (\<lambda>directed_src.
     assert_all [is_none (extract_packet_info P directed_src)])))"

definition test_accepts_unicast_source :: "pnet \<Rightarrow> pnet_setters \<Rightarrow> unit outcome" where
  "test_accepts_unicast_source P Q =
     seq (build_udp P Q (Ipv4Addr 192 168 1 50) (Ipv4Addr 224 0 0 251)) (\<lambda>valid.
     seq (extract_packet_info P valid) (\<lambda>extracted.
     seq (unwrap extracted) (\<lambda>info.
     asserts [pkt_src_ip info = Ipv4Addr 192 168 1 50, pkt_dst_ip info = Ipv4Addr 224 0 0 251])))"

definition test_rejects_truncated_packet :: "pnet \<Rightarrow> pnet_setters \<Rightarrow> unit outcome" where
  "test_rejects_truncated_packet P Q =
     seq (build_udp P Q (Ipv4Addr 192 168 1 1) (Ipv4Addr 255 255 255 255)) (\<lambda>valid.
     seq (assert_all [is_some (extract_packet_info P valid)]) (\<lambda>_.
     seq (slice_to (length valid - 1) valid) (\<lambda>cut.
     assert_all [is_none (extract_packet_info P cut)])))"

definition test_validate_rejects_malformed_headers :: "unit outcome" where
  "test_validate_rejects_malformed_headers = assert_all
     [is_none (validate_ipv4_header []), is_none (validate_ipv4_header (replicate 19 0)),
      is_none (validate_ipv4_header [0x40, 0, 0, 0]), is_none (validate_ipv4_header (replicate 19 0x45)),
      is_none (validate_ipv4_header (replicate 20 0x40)), is_none (validate_ipv4_header (replicate 20 0x60)),
      is_none (validate_ipv4_header ((replicate 28 0)[0 := 0x4F])),
      seq (validate_ipv4_header (replicate 20 0x45)) (\<lambda>r. Ret (r = Some 20))]"

subsection \<open>The pseudo-fuzz test\<close>

text \<open>The closure \<open>exercise\<close>: the results are dropped, only a panic counts.\<close>

definition exercise :: "pnet \<Rightarrow> buf \<Rightarrow> unit outcome" where
  "exercise P b =
     seq (is_already_relayed P b) (\<lambda>_.
     seq (extract_packet_info P b) (\<lambda>_.
     let owned = b in
     seq (apply_nat P owned nat_default (Ipv4Addr 10 0 0 255)) (\<lambda>_. Ret ())))"

fun for_each :: "'a list \<Rightarrow> ('a \<Rightarrow> unit outcome) \<Rightarrow> unit outcome" where
  "for_each [] f = Ret ()"
| "for_each (x # xs) f = seq (f x) (\<lambda>_. for_each xs f)"

text \<open>The generator \<open>next\<close>: a linear congruential generator on \<open>u32\<close>.\<close>

definition lcg :: "u32 \<Rightarrow> u32" where
  "lcg state = state * 1664525 + 1013904223"

fun random_bytes :: "nat \<Rightarrow> u32 \<Rightarrow> buf \<times> u32" where
  "random_bytes 0 state = ([], state)"
| "random_bytes (Suc n) state =
     (let state1 = lcg state; (bs, state2) = random_bytes n state1
      in (ucast (drop_bit 16 state1) # bs, state2))"

fun fuzz_random :: "pnet \<Rightarrow> nat \<Rightarrow> u32 \<Rightarrow> unit outcome" where
  "fuzz_random P 0 state = Ret ()"
| "fuzz_random P (Suc n) state =
     (let state1 = lcg state; len = unat (state1 mod 80); (b, state2) = random_bytes len state1
      in seq (exercise P b) (\<lambda>_. fuzz_random P n state2))"

definition fuzz_parsing_path_never_panics :: "pnet \<Rightarrow> pnet_setters \<Rightarrow> unit outcome" where
  "fuzz_parsing_path_never_panics P Q =
     seq (build_udp P Q (Ipv4Addr 192 168 1 1) (Ipv4Addr 255 255 255 255)) (\<lambda>valid.
     seq (for_each [0..<Suc (length valid)] (\<lambda>len. seq (slice_to len valid) (exercise P))) (\<lambda>_.
     seq (for_each [0, 1, 4, 20, 28, 40, 64] (\<lambda>size. for_each [0..<16] (\<lambda>ihl.
            let b = replicate size 0x33;
                b' = (if b \<noteq> [] then b[0 := push_bit 4 4 OR of_nat ihl] else b)
            in exercise P b'))) (\<lambda>_.
     fuzz_random P 5000 0x12345678)))"

section \<open>nat.rs\<close>

definition relayed_packet_carries_loop_marker :: "pnet \<Rightarrow> pnet_setters \<Rightarrow> unit outcome" where
  "relayed_packet_carries_loop_marker P Q =
     seq (build_packet P Q 64 0x1111 0x9999) (\<lambda>buf0.
     seq (apply_nat P buf0 nat_default (Ipv4Addr 255 255 255 255)) (\<lambda>(buf1, r).
     seq (unwrap_ok r) (\<lambda>_.
     seq (unwrap (ipv4_packet_new P buf1)) (\<lambda>ip.
     seq (build_packet P Q 1 RELAY_MARKER_IP_ID 0) (\<lambda>other.
     assert_all [Ret (ipv4_get_ttl P ip = 1), Ret (ipv4_get_identification P ip = RELAY_MARKER_IP_ID),
       is_already_relayed P other, is_already_relayed P buf1])))))"

definition relayed_packet_has_valid_udp_checksum :: "pnet \<Rightarrow> pnet_setters \<Rightarrow> unit outcome" where
  "relayed_packet_has_valid_udp_checksum P Q =
     seq (build_packet P Q 64 0x1111 0) (\<lambda>buf0.
     let src = Ipv4Addr 192 168 1 50; dst = Ipv4Addr 255 255 255 255 in
     seq (apply_nat P buf0 nat_default dst) (\<lambda>(buf1, r).
     seq (unwrap_ok r) (\<lambda>_.
     seq (slice_from 20 buf1) (\<lambda>s.
     seq (unwrap (udp_packet_new P s)) (\<lambda>udp.
     asserts [udp_get_checksum Q udp \<noteq> 0,
              udp_get_checksum Q udp = udp_ipv4_checksum P udp src dst])))))"

definition legit_ttl1_zero_checksum_is_not_treated_as_relayed :: "pnet \<Rightarrow> pnet_setters \<Rightarrow> unit outcome" where
  "legit_ttl1_zero_checksum_is_not_treated_as_relayed P Q =
     seq (build_packet P Q 1 0x1111 0) (\<lambda>b.
     seq (is_already_relayed P b) (\<lambda>relayed. asserts [\<not> relayed]))"

section \<open>ratelimit.rs\<close>

definition allows_up_to_burst_then_blocks :: "(nat \<Rightarrow> nat) \<Rightarrow> unit outcome" where
  "allows_up_to_burst_then_blocks now =
     (let rl0 = RateLimiter_new 0 3 (now 0); (a1, rl1) = allow (now 1) rl0; (a2, rl2) = allow (now 2) rl1;
          (a3, rl3) = allow (now 3) rl2; (a4, rl4) = allow (now 4) rl3
      in asserts [a1, a2, a3, \<not> a4])"

definition burst_floors_at_one :: "(nat \<Rightarrow> nat) \<Rightarrow> unit outcome" where
  "burst_floors_at_one now =
     (let rl0 = RateLimiter_new 0 0 (now 0); (a1, rl1) = allow (now 1) rl0; (a2, rl2) = allow (now 2) rl1
      in asserts [a1, \<not> a2])"

section \<open>relay.rs\<close>

definition BCAST_A :: ipv4addr where "BCAST_A = Ipv4Addr 192 168 1 255"
definition LIMITED :: ipv4addr where "LIMITED = Ipv4Addr 255 255 255 255"
definition MCAST :: ipv4addr where "MCAST = Ipv4Addr 224 0 0 251"

definition never_echoes_back_to_ingress_interface :: "unit outcome" where
  "never_echoes_back_to_ingress_interface = asserts
     [\<not> should_relay_to LIMITED ''eth0'' ''eth0'' [BCAST_A], \<not> should_relay_to MCAST ''eth0'' ''eth0'' [BCAST_A],
      \<not> should_relay_to BCAST_A ''eth0'' ''eth0'' [BCAST_A]]"

definition relays_broadcast_and_multicast_to_other_interfaces :: "unit outcome" where
  "relays_broadcast_and_multicast_to_other_interfaces = asserts
     [should_relay_to LIMITED ''eth0'' ''eth1'' [BCAST_A], should_relay_to MCAST ''eth0'' ''eth1'' [BCAST_A]]"

definition directed_broadcast_only_to_matching_subnet :: "unit outcome" where
  "directed_broadcast_only_to_matching_subnet = asserts
     [should_relay_to BCAST_A ''eth0'' ''eth1'' [BCAST_A],
      \<not> should_relay_to BCAST_A ''eth0'' ''eth2'' [Ipv4Addr 10 0 0 255]]"

definition directed_broadcast_matches_any_subnet_on_multihomed_iface :: "unit outcome" where
  "directed_broadcast_matches_any_subnet_on_multihomed_iface =
     (let bcasts = [Ipv4Addr 10 0 0 255, Ipv4Addr 172 16 0 255] in asserts
     [should_relay_to (Ipv4Addr 10 0 0 255) ''eth0'' ''eth1'' bcasts,
      should_relay_to (Ipv4Addr 172 16 0 255) ''eth0'' ''eth1'' bcasts,
      \<not> should_relay_to (Ipv4Addr 192 168 0 255) ''eth0'' ''eth1'' bcasts])"

definition bidirectional_config_does_not_loop :: "unit outcome" where
  "bidirectional_config_does_not_loop = asserts
     [\<not> should_relay_to LIMITED ''eth0'' ''eth0'' [BCAST_A], should_relay_to LIMITED ''eth0'' ''eth1'' [BCAST_A]]"

definition nat_target_keeps_matching_directed_broadcast :: "unit outcome" where
  "nat_target_keeps_matching_directed_broadcast =
     (let bcasts = [Ipv4Addr 10 0 0 255, Ipv4Addr 172 16 0 255] in asserts
     [nat_rewrite_target (Ipv4Addr 172 16 0 255) bcasts = Ipv4Addr 172 16 0 255,
      nat_rewrite_target LIMITED bcasts = Ipv4Addr 10 0 0 255])"

section \<open>socket.rs\<close>

definition pkt_with_dst :: "u8 list \<Rightarrow> buf" where
  "pkt_with_dst dst = (let b = replicate 20 0 in take 16 b @ dst @ drop 20 b)"

definition multicast_maps_to_01005e_mac :: "unit outcome" where
  "multicast_maps_to_01005e_mac = asserts
     [dest_mac (pkt_with_dst [224, 0, 0, 251]) = [0x01, 0x00, 0x5e, 0x00, 0x00, 0xfb, 0, 0],
      dest_mac (pkt_with_dst [239, 255, 255, 250]) = [0x01, 0x00, 0x5e, 0x7f, 0xff, 0xfa, 0, 0]]"

definition broadcast_uses_all_ones_mac :: "unit outcome" where
  "broadcast_uses_all_ones_mac =
     (let bcast = [0xff, 0xff, 0xff, 0xff, 0xff, 0xff, 0, 0] in asserts
     [dest_mac (pkt_with_dst [255, 255, 255, 255]) = bcast, dest_mac (pkt_with_dst [192, 168, 1, 255]) = bcast])"

definition short_buffer_falls_back_to_broadcast :: "unit outcome" where
  "short_buffer_falls_back_to_broadcast = asserts
     [dest_mac (replicate 10 0) = [0xff, 0xff, 0xff, 0xff, 0xff, 0xff, 0, 0]]"

section \<open>The tests pass\<close>

definition packet_tests :: "pnet \<Rightarrow> pnet_setters \<Rightarrow> unit outcome list" where
  "packet_tests P Q =
     [test_is_broadcast, test_rejects_multicast_source P Q, test_rejects_broadcast_source P Q,
      test_accepts_unicast_source P Q, test_rejects_truncated_packet P Q,
      test_validate_rejects_malformed_headers, fuzz_parsing_path_never_panics P Q]"

definition nat_tests :: "pnet \<Rightarrow> pnet_setters \<Rightarrow> unit outcome list" where
  "nat_tests P Q =
     [relayed_packet_carries_loop_marker P Q, relayed_packet_has_valid_udp_checksum P Q,
      legit_ttl1_zero_checksum_is_not_treated_as_relayed P Q]"

definition other_tests :: "(nat \<Rightarrow> nat) \<Rightarrow> unit outcome list" where
  "other_tests now =
     [allows_up_to_burst_then_blocks now, burst_floors_at_one now, never_echoes_back_to_ingress_interface,
      relays_broadcast_and_multicast_to_other_interfaces, directed_broadcast_only_to_matching_subnet,
      directed_broadcast_matches_any_subnet_on_multihomed_iface, bidirectional_config_does_not_loop,
      nat_target_keeps_matching_directed_broadcast, multicast_maps_to_01005e_mac, broadcast_uses_all_ones_mac,
      short_buffer_falls_back_to_broadcast]"

lemma asserts_simps [simp]: "asserts bs = Ret () \<longleftrightarrow> list_all id bs"
  by (simp add: asserts_def)

lemma static_tests_pass:
  "test_is_broadcast = Ret ()" "test_validate_rejects_malformed_headers = Ret ()"
  by code_simp+

lemma for_each_Ret: "(\<And>x. x \<in> set xs \<Longrightarrow> f x = Ret ()) \<Longrightarrow> for_each xs f = Ret ()"
  by (induction xs) simp_all

lemma limiter_tests_pass: "allows_up_to_burst_then_blocks now = Ret ()" "burst_floors_at_one now = Ret ()"
proof -
  have "unat (max 3 1 :: u32) = Suc (Suc (Suc 0))" "unat (max 0 1 :: u32) = Suc 0" by simp_all
  then have "fst (run_steps allow [now 1, now 2, now 3, now 4] (RateLimiter_new 0 3 (now 0))) = [True, True, True, False]"
    "fst (run_steps allow [now 1, now 2] (RateLimiter_new 0 0 (now 0))) = [True, False]"
    using burst_run [of 0 "[now 1, now 2, now 3, now 4]" "now 0" 3] burst_run [of 0 "[now 1, now 2]" "now 0" 0]
    by simp_all
  then show "allows_up_to_burst_then_blocks now = Ret ()" "burst_floors_at_one now = Ret ()"
    by (simp_all add: allows_up_to_burst_then_blocks_def burst_floors_at_one_def Let_def split_beta)
qed

lemma relay_and_socket_tests_pass:
  "never_echoes_back_to_ingress_interface = Ret ()" "relays_broadcast_and_multicast_to_other_interfaces = Ret ()"
  "directed_broadcast_only_to_matching_subnet = Ret ()"
  "directed_broadcast_matches_any_subnet_on_multihomed_iface = Ret ()"
  "bidirectional_config_does_not_loop = Ret ()" "nat_target_keeps_matching_directed_broadcast = Ret ()"
  "multicast_maps_to_01005e_mac = Ret ()" "broadcast_uses_all_ones_mac = Ret ()"
  "short_buffer_falls_back_to_broadcast = Ret ()"
  by code_simp+

lemma other_tests_pass: "list_all (\<lambda>t. t = Ret ()) (other_tests now)"
  by (simp add: other_tests_def limiter_tests_pass relay_and_socket_tests_pass)

context pnet_layout
begin

lemma exercise_Ret: "exercise P b = Ret ()"
  unfolding exercise_def Let_def using apply_nat_no_panic [of b nat_default "Ipv4Addr 10 0 0 255"]
  by (cases "apply_nat P b nat_default (Ipv4Addr 10 0 0 255)")
    (simp_all add: is_already_relayed_eq extract_packet_info_eq)

lemma fuzz_random_Ret: "fuzz_random P n state = Ret ()"
  by (induction n arbitrary: state) (simp_all add: exercise_Ret Let_def split_beta)

end

context test_bed
begin

lemma source_tests_pass:
  "test_rejects_multicast_source P Q = Ret ()" "test_rejects_broadcast_source P Q = Ret ()"
  "test_accepts_unicast_source P Q = Ret ()" "test_rejects_truncated_packet P Q = Ret ()"
proof -
  note eqs = build_udp_eq extract_packet_info_eq asserts_def is_none_def is_some_def
  have "\<not> relayable (udp_bytes (Ipv4Addr 224 0 0 251) (Ipv4Addr 224 0 0 251))"
    "\<not> relayable (udp_bytes (Ipv4Addr 239 255 255 250) (Ipv4Addr 255 255 255 255))" by code_simp+
  then show "test_rejects_multicast_source P Q = Ret ()" by (simp add: test_rejects_multicast_source_def eqs)
  have "\<not> relayable (udp_bytes (Ipv4Addr 255 255 255 255) (Ipv4Addr 255 255 255 255))"
    "\<not> relayable (udp_bytes (Ipv4Addr 192 168 1 255) (Ipv4Addr 255 255 255 255))" by code_simp+
  then show "test_rejects_broadcast_source P Q = Ret ()" by (simp add: test_rejects_broadcast_source_def eqs)
  let ?u = "udp_bytes (Ipv4Addr 192 168 1 50) (Ipv4Addr 224 0 0 251)"
  have "relayable ?u" "be_ip ?u 12 = Ipv4Addr 192 168 1 50" "be_ip ?u 16 = Ipv4Addr 224 0 0 251" by code_simp+
  then show "test_accepts_unicast_source P Q = Ret ()"
    by (simp add: test_accepts_unicast_source_def eqs unwrap_def info_of_def)
  let ?v = "udp_bytes (Ipv4Addr 192 168 1 1) (Ipv4Addr 255 255 255 255)"
  have "relayable ?v" "length ?v = 28" "\<not> relayable (take 27 ?v)" by code_simp+
  then show "test_rejects_truncated_packet P Q = Ret ()"
    by (simp add: test_rejects_truncated_packet_def eqs slice_to_def)
qed

lemma fuzz_passes: "fuzz_parsing_path_never_panics P Q = Ret ()"
proof -
  have "for_each [0..<Suc (length b)] (\<lambda>len. seq (slice_to len b) (exercise P)) = Ret ()" for b
    by (rule for_each_Ret) (auto simp: slice_to_def exercise_Ret)
  moreover have "for_each sizes (\<lambda>size. for_each [0..<16] (\<lambda>ihl. exercise P (f size ihl))) = Ret ()" for sizes :: "nat list" and f
    by (intro for_each_Ret) (rule exercise_Ret)
  ultimately show ?thesis
    by (simp add: fuzz_parsing_path_never_panics_def build_udp_eq fuzz_random_Ret Let_def
        del: upt_Suc for_each.simps)
qed

lemma packet_tests_pass: "list_all (\<lambda>t. t = Ret ()) (packet_tests P Q)"
  by (simp add: packet_tests_def static_tests_pass source_tests_pass fuzz_passes)

lemma nat_of_hello: "apply_nat P (hello_bytes ttl i c) nat_default dst =
    Ret (nat_bytes P nat_default dst (hello_bytes ttl i c), Inr ())"
proof -
  have "nat_ok (hello_bytes ttl i c)"
    by (simp add: nat_ok_def header_ok_def hdr_len_def hello_bytes_def hello_def)
  then show ?thesis by (simp add: apply_nat_Ok_iff)
qed

lemma hello_marked: "marked (hello_bytes ttl i c) \<longleftrightarrow> ttl = 1 \<and> i = 0xBCBC"
proof -
  have "be16 (hello_bytes ttl i c) 4 = i"
    by (simp add: hello_bytes_def be16_def hello_def hi_lo_join)
  moreover have "header_ok (hello_bytes ttl i c)" "hello_bytes ttl i c ! 8 = ttl"
    by (simp_all add: header_ok_def hdr_len_def hello_bytes_def hello_def)
  ultimately show ?thesis by (simp add: marked_def)
qed

lemma marker_tests_pass:
  "relayed_packet_carries_loop_marker P Q = Ret ()"
  "legit_ttl1_zero_checksum_is_not_treated_as_relayed P Q = Ret ()"
proof -
  let ?b = "nat_bytes P nat_default (Ipv4Addr 255 255 255 255) (hello_bytes 64 0x1111 0x9999)"
  have h: "header_ok (hello_bytes 64 0x1111 0x9999)"
    by (simp add: header_ok_def hdr_len_def hello_bytes_def hello_def)
  have "marked ?b" using h by (rule nat_bytes_marked)
  moreover from this have "20 \<le> length ?b" by (simp add: marked_def header_ok_def)
  ultimately show "relayed_packet_carries_loop_marker P Q = Ret ()"
    by (simp add: relayed_packet_carries_loop_marker_def build_packet_eq nat_of_hello unwrap_ok_def ipv4_reads
        unwrap_def is_already_relayed_eq hello_marked RELAY_MARKER_IP_ID_def marked_def [of ?b])
  show "legit_ttl1_zero_checksum_is_not_treated_as_relayed P Q = Ret ()"
    by (simp add: legit_ttl1_zero_checksum_is_not_treated_as_relayed_def build_packet_eq is_already_relayed_eq
        hello_marked)
qed

lemma hello_checksum_nonzero:
  "inet_checksum (pseudo_header (Ipv4Addr 192 168 1 50) (Ipv4Addr 255 255 255 255) 13 @
     [0x04, 0xD2, 0x14, 0xE9, 0, 13, 0, 0] @ hello) \<noteq> 0"
proof -
  let ?b = "pseudo_header (Ipv4Addr 192 168 1 50) (Ipv4Addr 255 255 255 255) 13 @
     [0x04, 0xD2, 0x14, 0xE9, 0, 13, 0, 0] @ hello"
  have "wsum ?b mod 65535 \<noteq> 0" by (simp add: pseudo_header_def hello_def octet_consts)
  then have "fold16 (wsum ?b) \<noteq> 65535" using fold16_all_ones_iff [of "wsum ?b"] by simp
  then have "unat (inet_checksum ?b) \<noteq> 0"
    using fold16_bounds [of "wsum ?b"] unfolding unat_inet_checksum by linarith
  then show ?thesis by auto
qed

lemma checksum_test_passes: "relayed_packet_has_valid_udp_checksum P Q = Ret ()"
proof -
  let ?src = "Ipv4Addr 192 168 1 50" and ?dst = "Ipv4Addr 255 255 255 255"
  let ?b = "hello_bytes 64 0x1111 0" and ?z = "[0x04, 0xD2, 0x14, 0xE9, 0, 13, 0, 0] @ hello :: buf"
  let ?c = "udp_ipv4_checksum P ?z ?src ?dst"
  have b: "nat_ok ?b" "?b ! 9 = 17" "hdr_len ?b = 20" "drop 20 ?b = ?z" "rewrite_ports nat_default ?z = ?z"
    "final_src nat_default ?b = ?src" "final_dst nat_default ?dst ?b = ?dst"
    by code_simp+
  from nat_bytes_udp [OF b(1,2), of P nat_default ?dst]
  have s: "drop 20 (nat_bytes P nat_default ?dst ?b) = put16 6 ?c ?z"
    unfolding b rewrite_udp_def by simp
  have len: "length (put16 6 v ?z) = 13" "unat (be16 (put16 6 v ?z) 4) = 13" "put16 6 0 (put16 6 v ?z) = ?z" for v
    by (simp_all add: put16_def be16_def hello_def octet_consts)
  have "udp_ipv4_checksum P (put16 6 v ?z) ?src ?dst = inet_checksum (pseudo_header ?src ?dst 13 @ ?z)" for v
    using udp_sum [of "put16 6 v ?z" _ ?src ?dst] hello_checksum_nonzero unfolding len by auto
  moreover have "put16 6 0 ?z = ?z" by (simp add: put16_def octet_consts)
  ultimately have c: "udp_ipv4_checksum P (put16 6 ?c ?z) ?src ?dst = ?c" "?c \<noteq> 0"
    using hello_checksum_nonzero by metis+
  have "be16 (put16 6 ?c ?z) 6 = ?c" by simp
  moreover have "20 \<le> length (nat_bytes P nat_default ?dst ?b)"
    using s len(1) [of ?c] by (metis length_drop diff_is_0_eq' nle_le zero_neq_numeral)
  ultimately show ?thesis
    using c len(1) [of ?c]
    by (simp add: relayed_packet_has_valid_udp_checksum_def build_packet_eq nat_of_hello unwrap_ok_def Let_def
        slice_from_def s udp_new unwrap_def udp_get_sum)
qed

lemma nat_tests_pass: "list_all (\<lambda>t. t = Ret ()) (nat_tests P Q)"
  by (simp add: nat_tests_def marker_tests_pass checksum_test_passes)

end

section \<open>All tests\<close>

text \<open>Every test, for every \<open>pnet\<close> library that keeps to the documented layout and checksums, every
  behaviour of the clock and every place of the sources.\<close>

lemma unit_tests_pass:
  assumes "test_bed P Q"
  shows "list_all (\<lambda>t. t = Ret ())
    (config_tests (repo_files dir) dir @ packet_tests P Q @ nat_tests P Q @ other_tests now)"
  using test_bed.packet_tests_pass [OF assms] test_bed.nat_tests_pass [OF assms]
  by (simp add: config_tests_pass other_tests_pass)

lemma unit_tests_pass_rfc:
  "list_all (\<lambda>t. t = Ret ()) (config_tests (repo_files dir) dir @ packet_tests rfc_pnet rfc_setters @
     nat_tests rfc_pnet rfc_setters @ other_tests now)"
  by (rule unit_tests_pass [OF rfc_tests.test_bed_axioms])

end
