(* ===== verification/Bcr_Trace.thy ===== *)
theory Bcr_Trace
  imports Bcr_Reach
begin

text \<open>
  The exact trace of the relay of \<open>src/src/relay.rs\<close>: every event that serving one input socket causes,
  in order, the printed lines of \<open>--verbose\<close> included. \<open>packet_events\<close> is written over the received bytes
  and the answers of the kernel, without the buffers of the loop; \<open>handle_input_exact\<close> shows that the
  code causes exactly these events.
\<close>

section \<open>The trace of a packet\<close>

definition outcome_line :: "PacketInfo \<Rightarrow> nat \<Rightarrow> PacketSocket \<Rightarrow> errno + nat \<Rightarrow> event" where
  "outcome_line info len out sent =
     (case sent of Inr _ \<Rightarrow> log_relay info len (ps_ifname out)
      | Inl e \<Rightarrow> Eprintln (''Send error on '' @ ps_ifname out @ '': '' @ e))"

fun output_events ::
  "pnet \<Rightarrow> bool \<Rightarrow> NatOptions \<Rightarrow> string \<Rightarrow> buf \<Rightarrow> (nat \<Rightarrow> errno + nat) \<Rightarrow> nat \<Rightarrow> PacketSocket list \<Rightarrow> event list" where
  "output_events P vb no ingress b sent k [] = []"
| "output_events P vb no ingress b sent k (out # outs) =
     (if should_relay_to (be_ip b 16) ingress (ps_ifname out) (ps_broadcast_addrs out)
      then send out (copy_for P no b out) # emit_if vb (outcome_line (info_of b) (length b) out (sent k))
      else []) @ output_events P vb no ingress b sent (Suc k) outs"

definition packet_events :: "pnet \<Rightarrow> Relay \<Rightarrow> IterEnv \<Rightarrow> nat \<Rightarrow> PacketSocket \<Rightarrow> buf \<Rightarrow> event list" where
  "packet_events P relay env j in_sock b =
     (if marked b \<or> \<not> relayable b then []
      else case get_nat_rule (relay_filter relay) (info_of b) of
        None \<Rightarrow> emit_if (verbose relay) (log_filtered ''no match'' (info_of b))
      | Some r \<Rightarrow>
          (let outs = output_events P (verbose relay) (rule_nat r) (ps_ifname in_sock) b (ie_send env j) 0
             (output_sockets relay)
           in case rate_limiter relay of
             None \<Rightarrow> outs
           | Some rl \<Rightarrow> Instant_now #
               (if fst (allow (ie_now env j) rl) then outs
                else emit_if (verbose relay) (log_filtered ''rate limit'' (info_of b)))))"

definition input_events :: "pnet \<Rightarrow> Relay \<Rightarrow> IterEnv \<Rightarrow> nat list \<Rightarrow> nat \<Rightarrow> PacketSocket \<Rightarrow> event list" where
  "input_events P relay env ready j in_sock =
     (if ps_fd in_sock \<notin> set ready then []
      else Read (ps_fd in_sock) 65536 #
        (case ie_recv env j of
           Inl e \<Rightarrow> emit_if (verbose relay) (Eprintln (''Recv error on '' @ ps_ifname in_sock @ '': '' @ e))
         | Inr d \<Rightarrow> packet_events P relay env j in_sock (received d)))"

text \<open>
  The machine without buffers: its state is the relay, of which only the limiter changes.
\<close>

definition relay_after :: "pnet \<Rightarrow> Relay \<Rightarrow> IterEnv \<Rightarrow> nat list \<Rightarrow> nat \<Rightarrow> PacketSocket \<Rightarrow> Relay" where
  "relay_after P relay env ready j in_sock =
     relay\<lparr>rate_limiter := snd (admit (rate_limiter relay)
       (map fst (socket_requests P (output_sockets relay) (relay_filter relay) env ready j in_sock)))\<rparr>"

fun inputs_trace ::
  "pnet \<Rightarrow> Relay \<Rightarrow> IterEnv \<Rightarrow> nat list \<Rightarrow> nat \<Rightarrow> PacketSocket list \<Rightarrow> event list \<times> Relay" where
  "inputs_trace P relay env ready j [] = ([], relay)"
| "inputs_trace P relay env ready j (s # socks) =
     (let (es, relay') = inputs_trace P (relay_after P relay env ready j s) env ready (Suc j) socks
      in (input_events P relay env ready j s @ es, relay'))"

fun run_trace :: "pnet \<Rightarrow> Relay \<Rightarrow> IterEnv list \<Rightarrow> event list \<times> Relay result" where
  "run_trace P relay [] = ([], Inr relay)"
| "run_trace P relay (env # envs) =
     (let ev = Select (map ps_fd (input_sockets relay)) 3 in
      case ie_select env of
        Inl e \<Rightarrow> ([ev], Inl [e])
      | Inr (n, ready) \<Rightarrow>
          (let (es, relay') = (if n = 0 then ([], relay)
                               else inputs_trace P relay env ready 0 (input_sockets relay));
               (es', r) = run_trace P relay' envs
           in (ev # es @ es', r)))"

section \<open>The code causes this trace\<close>

context pnet_layout
begin

lemma relay_outputs_exact:
  assumes "relayable (take len rbuf)" "len \<le> length rbuf" "len \<le> length sbuf"
  shows "\<exists>sbuf'. relay_outputs P vb (info_of (take len rbuf)) no ingress len rbuf sent k outs sbuf =
    Ret (output_events P vb no ingress (take len rbuf) sent k outs, sbuf') \<and> length sbuf' = length sbuf"
  using assms(3)
proof (induction outs arbitrary: k sbuf)
  case (Cons out outs)
  let ?b = "take len rbuf"
  note one = relay_one_eq [OF assms(1,2) Cons.prems, of vb no "sent k" out]
  have l: "length (copy_for P no ?b out @ drop len sbuf) = length sbuf" using one Cons.prems by simp
  from Cons.IH [of sbuf "Suc k"] Cons.IH [of "copy_for P no ?b out @ drop len sbuf" "Suc k"] l one Cons.prems assms(2)
  show ?case by (auto simp: outcome_line_def split: sum.splits)
qed simp

lemma handle_packet_exact:
  assumes "bufs_ok st" "len \<le> 65536"
  shows "\<exists>st'. handle_packet P env j in_sock len st =
    Ret (packet_events P (self st) env j in_sock (take len (recv_buf st)), st')"
proof -
  let ?b = "take len (recv_buf st)"
  have len: "len \<le> length (recv_buf st)" "len \<le> length (send_buf st)"
    using assms by (auto simp: bufs_ok_def)
  show ?thesis
  proof (cases "marked ?b \<or> \<not> relayable ?b")
    case True
    with len show ?thesis
      by (auto simp: handle_packet_def is_already_relayed_eq extract_packet_info_eq packet_events_def)
  next
    case False
    then have "\<exists>sbuf'. relay_outputs P (verbose (self st)) (info_of ?b) no (ps_ifname in_sock) len (recv_buf st)
        (ie_send env j) 0 (output_sockets (self st)) (send_buf st) =
      Ret (output_events P (verbose (self st)) no (ps_ifname in_sock) ?b (ie_send env j) 0 (output_sockets (self st)),
        sbuf')" for no
      using relay_outputs_exact [OF _ len] by blast
    then obtain sb where sb: "\<And>no. relay_outputs P (verbose (self st)) (info_of ?b) no (ps_ifname in_sock) len
        (recv_buf st) (ie_send env j) 0 (output_sockets (self st)) (send_buf st) =
      Ret (output_events P (verbose (self st)) no (ps_ifname in_sock) ?b (ie_send env j) 0 (output_sockets (self st)),
        sb no)" by metis
    show ?thesis
      using False len
      by (cases "get_nat_rule (relay_filter (self st)) (info_of ?b)"; cases "rate_limiter (self st)")
        (auto simp: handle_packet_def is_already_relayed_eq extract_packet_info_eq packet_events_def
          should_relay_iff_nat_rule check_rate_def split_beta Let_def sb)
  qed
qed

lemma handle_input_exact:
  assumes "bufs_ok st"
  shows "\<exists>st'. handle_input P env ready j in_sock st = Ret (input_events P (self st) env ready j in_sock, st')"
proof (cases "ie_recv env j")
  case (Inl e)
  with assms show ?thesis by (auto simp: handle_input_def input_events_def bufs_ok_def Let_def)
next
  case (Inr d)
  let ?n = "min (length d) 65536"
  let ?st = "st\<lparr>recv_buf := take ?n d @ drop ?n (recv_buf st)\<rparr>"
  have st: "bufs_ok ?st" "take ?n (recv_buf ?st) = received d" "self ?st = self st"
    using assms by (simp_all add: bufs_ok_def received_def min_def)
  from handle_packet_exact [OF st(1), of ?n env j in_sock] Inr assms show ?thesis
    unfolding st(2,3) by (auto simp: handle_input_def input_events_def bufs_ok_def Let_def)
qed

lemma handle_input_trace:
  assumes "bufs_ok st"
  shows "\<exists>st'. handle_input P env ready j in_sock st = Ret (input_events P (self st) env ready j in_sock, st') \<and>
    self st' = relay_after P (self st) env ready j in_sock \<and> bufs_ok st'"
proof -
  obtain es st' where h: "handle_input P env ready j in_sock st = Ret (es, st')"
    and i: "implements st (socket_requests P (output_sockets (self st)) (relay_filter (self st)) env ready j in_sock)
      es st'" using handle_input_implements [OF assms] by blast
  with handle_input_exact [OF assms, of env ready j in_sock] show ?thesis
    by (auto simp: implements_def relay_after_def split_beta Let_def)
qed

lemma handle_inputs_trace:
  assumes "bufs_ok st"
  shows "\<exists>st'. handle_inputs P env ready j socks st = Ret (fst (inputs_trace P (self st) env ready j socks), st') \<and>
    self st' = snd (inputs_trace P (self st) env ready j socks) \<and> bufs_ok st'"
  using assms
proof (induction socks arbitrary: j st)
  case (Cons s socks)
  obtain st1 where 1: "handle_input P env ready j s st = Ret (input_events P (self st) env ready j s, st1)"
    "self st1 = relay_after P (self st) env ready j s" "bufs_ok st1"
    using handle_input_trace [OF Cons.prems] by blast
  from Cons.IH [OF 1(3), of "Suc j"] 1 show ?case by (auto simp: split_beta Let_def)
qed simp

lemma inputs_trace_frame: "fds_fit (snd (inputs_trace P relay env ready j socks)) = fds_fit relay"
  by (induction socks arbitrary: relay j) (simp_all add: split_beta Let_def relay_after_def fds_fit_def)

lemma run_loop_trace:
  assumes "bufs_ok st" "fds_fit (self st)"
  shows "\<exists>r. run_loop P envs st = Ret (fst (run_trace P (self st) envs), r) \<and>
    map_sum id self r = snd (run_trace P (self st) envs)"
  using assms
proof (induction envs arbitrary: st)
  case (Cons env envs)
  show ?case
  proof (cases "ie_select env")
    case (Inl e)
    with Cons.prems(2) show ?thesis by (simp add: iteration_def build_fd_set_fit Let_def)
  next
    case (Inr x)
    obtain n ready where x: "x = (n, ready)" by (cases x)
    obtain st1 where 1: "handle_inputs P env ready 0 (input_sockets (self st)) st =
        Ret (fst (inputs_trace P (self st) env ready 0 (input_sockets (self st))), st1)"
      "self st1 = snd (inputs_trace P (self st) env ready 0 (input_sockets (self st)))" "bufs_ok st1"
      using handle_inputs_trace [OF Cons.prems(1)] by blast
    have "fds_fit (self st1)" using Cons.prems(2) by (simp add: 1(2) inputs_trace_frame)
    with Inr x 1 Cons.IH [OF 1(3)] Cons.IH [OF Cons.prems] Cons.prems(2) show ?thesis
      by (cases "n = 0") (auto simp: iteration_def build_fd_set_fit split_beta Let_def)
  qed
qed simp

end

end
