(* ===== verification/Spec2Isabelle.thy ===== *)
theory Spec2Isabelle
  imports Bcr_Cli Bcr_Bucket Bcr_Network Bcr_Tests Bcr_Trace
begin

text \<open>
  A verification development for bcr, a relay of UDP broadcast and multicast packets between
  the network interfaces of a Linux host (Rust, \<open>src/src/*.rs\<close>).

  \<^bold>\<open>The program.\<close> \<open>main.rs\<close> checks that it runs as root, reads the rules (\<open>config.rs\<close>), checks the
  interfaces (\<open>interface.rs\<close>), opens one AF_PACKET socket for each input and output interface
  (\<open>socket.rs\<close>, with a classic BPF program in the kernel), drops its privileges and enters the loop
  of \<open>relay.rs\<close>. The loop waits in \<open>select\<close>, reads a packet from each ready input socket, drops it if
  it carries the loop marker or is no broadcast UDP packet (\<open>packet.rs\<close>), asks the rules
  (\<open>filter.rs\<close>) and the token bucket (\<open>ratelimit.rs\<close>), and for each eligible output interface copies
  the packet to the send buffer, rewrites it (\<open>nat.rs\<close>), sends it and logs the line of \<open>logging.rs\<close>.

  \<^bold>\<open>The theories.\<close>
  \<^item> \<open>Bcr_Prelude\<close>: machine words, big-endian fields, errors (\<open>anyhow\<close> chains) and panics as values.
  \<^item> \<open>Bcr_Std\<close>: what the sources use of the Rust standard library on text (\<open>trim\<close>, \<open>lines\<close>,
    \<open>split_whitespace\<close>, \<open>parse\<close>, \<open>Ipv4Addr\<close>); strings are lists of UTF-8 bytes.
  \<^item> \<open>Bcr_Config\<close>, \<open>Bcr_Grammar\<close>: the data of \<open>config.rs\<close>, matching and the parser; the documented rule
    language, with both ports, as abstract syntax, related to the parser in both directions.
  \<^item> \<open>Bcr_Filter\<close>: \<open>filter.rs\<close>.
  \<^item> \<open>Bcr_Pnet\<close>: the \<open>pnet\<close> crate as a parameter, whose \<open>payload()\<close> may panic; the locales \<open>pnet_layout\<close> and \<open>pnet_checksums\<close> state
    what is relied on, interpreted on an implementation from RFC 791, 768 and 1071.
  \<^item> \<open>Bcr_Packet\<close>, \<open>Bcr_Nat\<close>: \<open>packet.rs\<close> and \<open>nat.rs\<close> on byte buffers, with the byte-level
    specifications \<open>relayable\<close>, \<open>info_of\<close>, \<open>marked\<close> and \<open>nat_bytes\<close>.
  \<^item> \<open>Bcr_F64\<close>, \<open>Bcr_Ratelimit\<close>: binary64 rounding over the rationals (locale \<open>rounding\<close>) and
    \<open>ratelimit.rs\<close> in that arithmetic (locale \<open>bounded_limiter\<close>).
  \<^item> \<open>Bcr_Os\<close>: system calls and printed lines as events; \<open>Bcr_Logging\<close>, \<open>Bcr_Interface\<close>,
    \<open>Bcr_Socket\<close>: \<open>logging.rs\<close>, \<open>interface.rs\<close> and \<open>socket.rs\<close> (locale \<open>bpf_machine\<close> for the kernel's
    filter machine).
  \<^item> \<open>Bcr_Relay\<close>: the loop of \<open>relay.rs\<close> with its two buffers, its specification (\<open>requests\<close>, \<open>admit\<close>,
    \<open>granted\<close>) and the refinement; \<open>Bcr_Reach\<close>: the loop as a transition system, its invariants.
  \<^item> \<open>Bcr_Trace\<close>: the loop as a machine without buffers, with every event that it causes.
  \<^item> \<open>Bcr_Bucket\<close>: the token bucket on integers that the limiter refines (locale \<open>step_refinement\<close>).
  \<^item> \<open>Bcr_Network\<close>: any number of relays on common segments, wired in any way; the contract of a node is
    the locale \<open>marking_node\<close>, which the relay is shown to meet.
  \<^item> \<open>Bcr_Creds\<close>: the credentials of the process, with \<open>CAP_SETUID\<close> and \<open>CAP_SETGID\<close>, as a kernel state (locale
    \<open>linux_creds\<close>), and what no sequence of calls can bring back; \<open>Bcr_Main\<close>: \<open>main.rs\<close>.
  \<^item> \<open>Bcr_Cli\<close>: the command line; the attributes of \<open>struct Cli\<close> are data and \<open>Cli::parse\<close>, which the \<open>clap\<close>
    crate generates from them, is a parameter (locale \<open>clap_parser\<close>). \<open>program\<close> is the program from its
    arguments on.
  \<^item> \<open>Bcr_Builders\<close>, \<open>Bcr_Tests_Config\<close>, \<open>Bcr_Tests\<close>: the unit tests of the sources and the example
    configurations that they read; \<open>unit_tests_pass\<close> shows that the model passes them.

  \<^bold>\<open>State and environment.\<close> The state of the loop is the record \<open>RunState\<close>: the relay (sockets, rules,
  limiter, verbosity) and the receive and send buffers. Whatever the kernel answers is an input: an
  \<open>IterEnv\<close> for each pass of the loop, a \<open>socket_env\<close> for each socket, a \<open>MainEnv\<close> for the start.
  Each operation returns the events it causes, in order. A panic (an index or slice out of range, an
  \<open>unwrap\<close> of nothing, a \<open>payload()\<close> of a malformed header) is the value \<open>Panic\<close>; a failed
  call is an error value, with the message chain of the source.

  \<^bold>\<open>What is shown.\<close> This theory holds the properties that span components: the loop refines its
  specification and has an exact trace; what is sent is authentic, marked, never relayed again, bounded by
  the rate limit and complete; nothing is printed without \<open>--verbose\<close> (against the documents). No
  captured bytes make the parsing path panic. The properties of a single
  component stand at the end of its theory. The refinement is by induction on the sockets and the
  passes; the invariants are proved by induction on \<open>reachable\<close>. Networks of relays come to rest: each
  delivery of an unmarked frame puts only marked ones in its place, which produce nothing. The
  limiter's floating-point arithmetic is related to an integer bucket, and the model is run on the
  tests of the repository.

  \<^bold>\<open>Bounds.\<close> No fuel is used: \<open>run\<close> is the loop over a list of passes, of any length, since the loop of the
  code has no end of its own. \<open>bpf_exec\<close> terminates because BPF only jumps forward. The buffers have
  the 65536 bytes of the code. An \<open>fd_set\<close> holds the descriptors below 1024 (\<open>FD_SETSIZE\<close>); an input
  socket above makes the first pass panic, which is the only panic of the loop. The model of \<open>f64\<close> has no exponent bounds; the limiter's values stay
  far from them.

  \<^bold>\<open>Not modelled.\<close> The parser that \<open>clap\<close> generates and its texts, beyond what \<open>clap_parser\<close> states;
  changes of credentials by other calls than the four that the program uses; the text of an \<open>errno\<close> and of I/O errors (inputs); a failure to write to standard
  output; the closing of sockets at exit; the stub for systems other than Linux (\<open>socket.rs\<close>, lines
  259 to 264); the packaging files.
\<close>

section \<open>A concrete run\<close>

definition sample_input :: PacketSocket where
  "sample_input = \<lparr>ps_fd = 3, ps_ifindex = 1, ps_ifname = ''eth0'',
     ps_broadcast_addrs = [Ipv4Addr 192 168 1 255]\<rparr>"

definition sample_relay :: Relay where
  "sample_relay = \<lparr>input_sockets = [sample_input], output_sockets = [sample_output],
     relay_filter = Filter_new allow_all, rate_limiter = None, verbose = False\<rparr>"

definition sample_pass :: IterEnv where
  "sample_pass = \<lparr>ie_select = Inr (1, [3]), ie_recv = (\<lambda>_. Inr sample_packet), ie_now = (\<lambda>_. 5),
     ie_send = (\<lambda>_ _. Inr 32)\<rparr>"

definition sample_copy :: buf where
  "sample_copy = copy_for rfc_pnet nat_default sample_packet sample_output"

lemma sample_passes: "passes (Filter_new allow_all) sample_packet = Some allow_all_rule"
  by code_simp

lemma received_sample: "received sample_packet = sample_packet"
  by (rule received_short) (simp add: sample_packet_def)

lemma sample_requests:
  "requests rfc_pnet (sample_relay\<lparr>rate_limiter := l\<rparr>) [sample_pass] = [(5, [send sample_output sample_copy])]"
proof -
  have t: "targets ''eth0'' (be_ip sample_packet 16) [sample_output] = [sample_output]" by code_simp
  have n: "rule_nat allow_all_rule = nat_default" by (simp add: allow_all_rule_def)
  have "copies rfc_pnet [sample_output] (rule_nat allow_all_rule) ''eth0'' sample_packet =
      [send sample_output sample_copy]"
    unfolding copies_def t n by (simp add: sample_copy_def)
  moreover have "ps_fd sample_input = 3" "ps_ifname sample_input = ''eth0''" by (simp_all add: sample_input_def)
  ultimately show ?thesis
    by (simp add: sample_relay_def sample_pass_def socket_requests_def received_sample sample_passes)
qed

lemma sample_fits [simp]:
  "fds_fit sample_relay" "fds_fit (sample_relay\<lparr>rate_limiter := l\<rparr>)" "fds_fit (sample_relay\<lparr>relay_filter := f\<rparr>)"
  "fds_fit (sample_relay\<lparr>verbose := v\<rparr>)"
  by (simp_all add: fds_fit_def sample_relay_def sample_input_def FD_SETSIZE_def)

lemma run_returns: "fds_fit relay \<Longrightarrow> \<exists>es r. run rfc_pnet envs relay = Ret (es, r)"
  using rfc.run_implements [of relay envs] by blast

lemma sample_relay_same: "sample_relay\<lparr>rate_limiter := None\<rparr> = sample_relay"
  by (simp add: sample_relay_def)

lemma sample_run:
  "\<exists>es r. run rfc_pnet [sample_pass] sample_relay = Ret (es, r) \<and>
     Sendto 4 sample_copy (send_address sample_output sample_copy) \<in> set es"
proof -
  obtain es r where r: "run rfc_pnet [sample_pass] sample_relay = Ret (es, r)"
    using run_returns sample_fits by blast
  have "requests rfc_pnet sample_relay [sample_pass] = [(5, [send sample_output sample_copy])]"
    using sample_requests [of None] by (simp only: sample_relay_same)
  moreover have "rate_limiter sample_relay = None" by (simp add: sample_relay_def)
  ultimately have "sends es = [send sample_output sample_copy]"
    using rfc.run_sends [OF r] by (simp add: admit_def granted_def)
  then have "Sendto 4 sample_copy (send_address sample_output sample_copy) \<in> set (sends es)"
    by (simp add: send_def sample_output_def)
  with r show ?thesis using Sendto_in_sends by blast
qed

section \<open>The relay as a whole\<close>

text \<open>C1: the relay loop implements its specification. For every environment, over any number of
  passes, what it sends is exactly the copies of the packets that pass the filter and are admitted by
  the limiter, in the order received, each rewritten from the packet as received (never from what an
  earlier packet left in the buffers). It ends only with the error of a \<open>select\<close> that failed. It
  panics in one case: an input socket has a descriptor of 1024 or more, which \<open>select\<close> cannot wait for;
  then it does so in the first pass.\<close>

theorem relay_refines_spec:
  assumes "pnet_layout P"
  shows "if fds_fit relay \<or> envs = []
    then \<exists>es r. run P envs relay = Ret (es, r) \<and>
      sends es = granted (fst (admit (rate_limiter relay) (map fst (requests P relay envs))))
        (requests P relay envs) \<and>
      (case r of
         Inl e \<Rightarrow> \<exists>env\<in>set envs. \<exists>err. ie_select env = Inl err \<and> e = [err]
       | Inr st \<Rightarrow> self st = relay\<lparr>rate_limiter :=
           snd (admit (rate_limiter relay) (map fst (requests P relay envs)))\<rparr>)
    else run P envs relay = Panic"
  using pnet_layout.run_implements [OF assms, of relay envs] run_Panic [of relay envs P] by auto

theorem relay_refines_spec_witness:
  "\<exists>es r. run rfc_pnet [sample_pass] sample_relay = Ret (es, r) \<and>
     sends es = [send sample_output sample_copy]"
proof -
  have "requests rfc_pnet sample_relay [sample_pass] = [(5, [send sample_output sample_copy])]"
    using sample_requests [of None] by (simp only: sample_relay_same)
  moreover have "rate_limiter sample_relay = None" by (simp add: sample_relay_def)
  ultimately show ?thesis
    using relay_refines_spec [OF rfc.pnet_layout_axioms, of sample_relay "[sample_pass]"]
    by (auto simp: admit_def granted_def sample_fits)
qed

text \<open>C12: the exact behaviour of the loop. It is that of a machine without buffers, whose only state is
  the relay itself: over any number of passes, the loop causes exactly the events of \<open>run_trace\<close>, in
  order (each select and read, each reading of the clock, each send, and with \<open>--verbose\<close> each line
  that is printed for a copy sent, a send or receive that failed, or a packet refused by the rules or
  the limiter), and ends with the same error or the same relay.\<close>

theorem loop_trace_exact:
  assumes "pnet_layout P" and "fds_fit relay"
  shows "\<exists>r. run P envs relay = Ret (fst (run_trace P relay envs), r) \<and>
    map_sum id self r = snd (run_trace P relay envs)"
  using pnet_layout.run_loop_trace [OF assms(1) bufs_ok_init, of relay envs] assms(2)
  by (simp add: run_def) (simp add: run_init_def)

definition verbose_relay :: Relay where
  "verbose_relay = sample_relay\<lparr>verbose := True\<rparr>"

theorem loop_trace_exact_witness:
  "\<exists>st. run rfc_pnet [sample_pass] verbose_relay =
     Ret ([Select [3] 3, Read 3 65536, send sample_output sample_copy,
           log_relay (info_of sample_packet) 32 ''eth1''], Inr st) \<and> self st = verbose_relay"
proof -
  have g: "marked sample_packet = False" "relayable sample_packet = True" "length sample_packet = 32"
    "get_nat_rule (Filter_new allow_all) (info_of sample_packet) = Some allow_all_rule"
    "should_relay_to (be_ip sample_packet 16) ''eth0'' ''eth1'' (ps_broadcast_addrs sample_output)"
    "ps_ifname sample_output = ''eth1''"
    by code_simp+
  have n: "rule_nat allow_all_rule = nat_default" by (simp add: allow_all_rule_def)
  have i: "ps_fd sample_input = 3" "ps_ifname sample_input = ''eth0''" by (simp_all add: sample_input_def)
  have r: "input_sockets verbose_relay = [sample_input]" "output_sockets verbose_relay = [sample_output]"
    "relay_filter verbose_relay = Filter_new allow_all" "rate_limiter verbose_relay = None" "verbose verbose_relay"
    by (simp_all add: verbose_relay_def sample_relay_def)
  have e: "ie_select sample_pass = Inr (1, [3])" "ie_recv sample_pass 0 = Inr sample_packet"
    "ie_send sample_pass 0 0 = Inr 32" by (simp_all add: sample_pass_def)
  have t: "fst (run_trace rfc_pnet verbose_relay [sample_pass]) =
      [Select [3] 3, Read 3 65536, send sample_output sample_copy, log_relay (info_of sample_packet) 32 ''eth1'']"
    by (simp add: e r i g n input_events_def packet_events_def received_sample outcome_line_def Let_def split_beta
        sample_copy_def)
  have "relay_after rfc_pnet verbose_relay sample_pass [3] 0 sample_input = verbose_relay"
    by (simp add: relay_after_def r admit_def)
  then have s: "snd (run_trace rfc_pnet verbose_relay [sample_pass]) = Inr verbose_relay"
    by (simp add: e r Let_def split_beta)
  have "fds_fit verbose_relay" by (simp add: verbose_relay_def)
  from loop_trace_exact [OF rfc.pnet_layout_axioms this, of "[sample_pass]"] obtain r' where
    "run rfc_pnet [sample_pass] verbose_relay = Ret (fst (run_trace rfc_pnet verbose_relay [sample_pass]), r')"
    "map_sum id self r' = Inr verbose_relay" unfolding s by blast
  then show ?thesis unfolding t by (cases r') auto
qed

text \<open>C2: nothing is sent that was not received and allowed. Every packet the relay sends is the
  rewritten copy of the datagram that one of its input sockets, reported as ready, delivered in one of
  the passes; that datagram is a valid, unmarked broadcast or multicast UDP packet, the first rule
  that matches it is an allow rule, whose options the copy was rewritten with, and the output
  interface is another than that of the socket that delivered it.\<close>

theorem sends_are_authentic:
  assumes "pnet_layout P" and "run P envs relay = Ret (es, r)" and "Sendto f b a \<in> set es"
  shows "\<exists>env\<in>set envs. \<exists>i d out rule. i < length (input_sockets relay) \<and>
    is_ready env (input_sockets relay ! i) \<and> ie_recv env i = Inr d \<and> out \<in> set (output_sockets relay) \<and>
    ps_ifname (input_sockets relay ! i) \<noteq> ps_ifname out \<and> \<not> marked (received d) \<and> relayable (received d) \<and>
    find_match (config (relay_filter relay)) (info_of (received d)) = Some rule \<and>
    rule_action rule = Allow \<and> f = ps_fd out \<and>
    b = copy_for P (rule_nat rule) (received d) out \<and> a = send_address out b"
proof -
  from pnet_layout.run_Sendto [OF assms] obtain env i d rule out where "env \<in> set envs"
    "i < length (input_sockets relay)" "is_ready env (input_sockets relay ! i)" "ie_recv env i = Inr d"
    "relays P relay (input_sockets relay ! i) (received d) rule out (Sendto f b a)" by blast
  then show ?thesis
    unfolding relays_Sendto get_nat_rule_Some_iff should_relay_to_def
    by (intro bexI [of _ env] exI [of _ i] exI [of _ d] exI [of _ out] exI [of _ rule])
      (auto split: if_splits)
qed

theorem sends_are_authentic_witness:
  "\<exists>es r f b a. run rfc_pnet [sample_pass] sample_relay = Ret (es, r) \<and> Sendto f b a \<in> set es \<and>
     (\<exists>i d out. i < length (input_sockets sample_relay) \<and> ie_recv sample_pass i = Inr d \<and>
        out \<in> set (output_sockets sample_relay) \<and> ps_ifname (input_sockets sample_relay ! i) \<noteq> ps_ifname out \<and> f = ps_fd out)"
proof -
  obtain es r where r: "run rfc_pnet [sample_pass] sample_relay = Ret (es, r)"
    "Sendto 4 sample_copy (send_address sample_output sample_copy) \<in> set es"
    using sample_run by blast
  from sends_are_authentic [OF rfc.pnet_layout_axioms r] obtain env i d out where "env \<in> set [sample_pass]"
    "i < length (input_sockets sample_relay)" "ie_recv env i = Inr d"
    "ps_ifname (input_sockets sample_relay ! i) \<noteq> ps_ifname out" "4 = ps_fd out"
    "out \<in> set (output_sockets sample_relay)" by blast
  moreover from this(1) have "env = sample_pass" by simp
  ultimately show ?thesis using r by blast
qed

text \<open>C6: a packet is relayed at most once, by any number of relays. Every packet that the relay
  sends carries the loop marker, and a relay that receives it, in any state and with any
  configuration, sends nothing for it.\<close>

theorem relayed_never_relayed_again:
  assumes "pnet_layout P" and "run P envs relay = Ret (es, r)" and "Sendto f b a \<in> set es"
    and "bufs_ok st" and "ie_recv env j = Inr b"
  shows "is_already_relayed P b = Ret True \<and>
    (\<exists>es' st'. handle_input P env ready j s st = Ret (es', st') \<and> sends es' = [])"
proof -
  from pnet_layout.run_Sendto [OF assms(1-3)] obtain in_sock d rule out where
    "relays P relay in_sock (received d) rule out (Sendto f b a)" by blast
  then have "relayable (received d)" "b = copy_for P (rule_nat rule) (received d) out"
    unfolding relays_Sendto by simp_all
  with copy_for_marked [of "received d"] length_received [of d] have m: "marked b" "length b \<le> 65536"
    by auto
  have "\<exists>es' st'. handle_input P env ready j s st = Ret (es', st') \<and> implements st [] es' st'"
    using pnet_layout.handle_input_implements [OF assms(1,4), of env ready j s]
      marked_no_requests [OF assms(5) m(2,1)] by simp
  then show ?thesis
    using m(1) pnet_layout.is_already_relayed_eq [OF assms(1), of b]
    by (auto simp: implements_def does_def)
qed

theorem relayed_never_relayed_again_witness:
  "is_already_relayed rfc_pnet sample_copy = Ret True \<and>
   (\<exists>es' st'. handle_input rfc_pnet (sample_pass\<lparr>ie_recv := \<lambda>_. Inr sample_copy\<rparr>) [3] 0 sample_input
      (run_init sample_relay) = Ret (es', st') \<and> sends es' = [])"
proof -
  obtain es r where r: "run rfc_pnet [sample_pass] sample_relay = Ret (es, r)"
    "Sendto 4 sample_copy (send_address sample_output sample_copy) \<in> set es"
    using sample_run by blast
  from relayed_never_relayed_again [OF rfc.pnet_layout_axioms r bufs_ok_init,
      of "sample_pass\<lparr>ie_recv := \<lambda>_. Inr sample_copy\<rparr>" 0 "[3]" sample_input sample_relay]
  show ?thesis by simp
qed

text \<open>C7: the rate limit caps what leaves the relay. If the clock does not run backwards, the number
  of packets sent in a run is at most the number of output interfaces times \<open>burst + rate * seconds\<close>
  (up to the rounding of \<open>f64\<close>), whatever arrives.\<close>

theorem relay_rate_bound:
  assumes "pnet_layout P" and "rate_limiter relay = Some (RateLimiter_new rate burst t0)"
    and "run P envs relay = Ret (es, r)" and "ts = map fst (requests P relay envs)"
    and "sorted (t0 # ts)"
  shows "of_nat (length (sends es)) \<le> of_nat (length (output_sockets relay)) *
    (u32_f64 (max burst 1)
      + u32_f64 rate * (of_nat (last (t0 # ts) - t0) / 1000000000) * (1 + f64_eps) ^ 4
      + of_nat (length ts) * (2 * f64_eps * u32_f64 (max burst 1)))"
proof -
  let ?rl = "RateLimiter_new rate burst t0"
  let ?oks = "fst (run_steps allow ts ?rl)" and ?n = "length (output_sockets relay)"
  have "sends es = granted ?oks (requests P relay envs)"
    using pnet_layout.run_sends [OF assms(1,3)] assms(2,4) by (simp add: admit_def split_beta)
  moreover have "length (granted ?oks (requests P relay envs)) \<le> ?n * count_list ?oks True"
    using assms(4) by (intro length_granted_le) (auto intro: requests_copies_le)
  ultimately have "(of_nat (length (sends es)) :: rat) \<le> of_nat (?n * count_list ?oks True)"
    by (simp only: of_nat_le_iff)
  also have "\<dots> = of_nat ?n * of_nat (count_list ?oks True)" by simp
  also have "\<dots> \<le> of_nat ?n * (rl_burst ?rl + rl_rate ?rl * secs (last (rl_last ?rl # ts) - rl_last ?rl) * grow 4
      + of_nat (length ts) * (2 * f64_eps * rl_burst ?rl))"
  proof (intro mult_left_mono)
    have "rl_last ?rl = t0" by (simp add: RateLimiter_new_def Let_def)
    then show "of_nat (count_list ?oks True) \<le> rl_burst ?rl +
        rl_rate ?rl * secs (last (rl_last ?rl # ts) - rl_last ?rl) * grow 4 +
        of_nat (length ts) * (2 * f64_eps * rl_burst ?rl)"
      using assms(5) by (intro window_bound limiter_ok_new) simp
  qed simp
  finally show ?thesis by (simp only: RateLimiter_new_def Let_def RateLimiter.select_convs secs_def grow_def)
qed

theorem relay_rate_bound_witness:
  "\<exists>es r. run rfc_pnet [sample_pass] (sample_relay\<lparr>rate_limiter := Some (RateLimiter_new 1 1 5)\<rparr>) = Ret (es, r) \<and>
     of_nat (length (sends es)) \<le> 1 + 2 * f64_eps"
proof -
  let ?relay = "sample_relay\<lparr>rate_limiter := Some (RateLimiter_new 1 1 5)\<rparr>"
  obtain es r where r: "run rfc_pnet [sample_pass] ?relay = Ret (es, r)"
    using run_returns sample_fits by blast
  have ts: "[5] = map fst (requests rfc_pnet ?relay [sample_pass])" unfolding sample_requests by simp
  have one: "u32_f64 (max 1 1) = 1" "u32_f64 1 = 1" by (simp_all add: u32_f64_def)
  have "length (output_sockets ?relay) = 1" by (simp add: sample_relay_def)
  with relay_rate_bound [OF rfc.pnet_layout_axioms _ r ts, of 1 1 5] one
  have "of_nat (length (sends es)) \<le> 1 + 2 * f64_eps" by simp
  with r show ?thesis by blast
qed

text \<open>C21: invariants of every state the loop can reach, for any kernel behaviour: the sockets, the
  rules and the flags never change, both buffers keep their size of 65536 bytes, the token count
  stays between 0 and the burst, and everything sent so far carries the loop marker and went out of
  an output socket with a link-layer address computed for it.\<close>

theorem relay_invariant:
  assumes "pnet_layout P" and "reachable P relay tr st" and "limiter_inv (rate_limiter relay)"
  shows "same_setup relay (self st) \<and> length (recv_buf st) = 65536 \<and> length (send_buf st) = 65536 \<and>
    limiter_inv (rate_limiter (self st)) \<and>
    (\<forall>f b a. Sendto f b a \<in> set tr \<longrightarrow>
       marked b \<and> (\<exists>out\<in>set (output_sockets relay). f = ps_fd out \<and> a = send_address out b))"
  using pnet_layout.reachable_inv [OF assms] pnet_layout.reachable_sends [OF assms]
  by (auto simp: relay_inv_def bufs_ok_def)

theorem relay_invariant_witness:
  "\<exists>tr st. reachable rfc_pnet sample_relay tr st \<and> tr \<noteq> [] \<and> same_setup sample_relay (self st) \<and>
     length (send_buf st) = 65536"
proof -
  have "build_fd_set (input_sockets (self (run_init sample_relay))) [] = Ret [3]"
    by (simp add: run_init_def) (simp add: sample_relay_def sample_input_def FD_SETSIZE_def)
  from reachable.step [OF reachable.start relay_step.idle [OF this]]
  obtain tr st where s: "reachable rfc_pnet sample_relay tr st" "tr \<noteq> []" by fastforce
  have "limiter_inv (rate_limiter sample_relay)" by (simp add: sample_relay_def limiter_inv_def)
  from relay_invariant [OF rfc.pnet_layout_axioms s(1) this] s show ?thesis by blast
qed

text \<open>Without \<open>--verbose\<close> the relay prints nothing while it runs, whatever happens. The documents of the
  repository promise a line for each relayed packet.\<close>

theorem silent_unless_verbose:
  assumes "pnet_layout P" and "\<not> verbose relay" and "run P envs relay = Ret (es, r)"
  shows "list_all (\<lambda>e. \<not> is_print e) es"
  using pnet_layout.run_implements [OF assms(1) run_Ret_fit [OF assms(3)]] assms(2,3)
  by (auto simp: list_all_iff)

theorem silent_unless_verbose_witness:
  "\<exists>es r. run rfc_pnet [sample_pass] sample_relay = Ret (es, r) \<and> list_all (\<lambda>e. \<not> is_print e) es"
proof -
  obtain es r where r: "run rfc_pnet [sample_pass] sample_relay = Ret (es, r)"
    using sample_run by blast
  have "\<not> verbose sample_relay" by (simp add: sample_relay_def)
  from silent_unless_verbose [OF rfc.pnet_layout_axioms this r] r show ?thesis by blast
qed

text \<open>C32: the receive buffer is large enough: what the parser makes of the bytes that a read leaves in
  the buffer is what it would make of the whole datagram, even of one longer than the buffer.\<close>

theorem no_truncation:
  assumes "pnet_layout P" and "length buffer = 65536" and "recv s buffer (Inr d) = (ev, buffer', Inr n)"
  shows "extract_packet_info P (take n buffer') = extract_packet_info P d \<and> length buffer' = 65536"
proof -
  from assms(2,3) have b: "take n buffer' = received d" "length buffer' = 65536"
    by (auto simp: received_def min_def split: if_splits)
  then show ?thesis
    using received_info [of d] by (simp add: pnet_layout.extract_packet_info_eq [OF assms(1)] received_relayable)
qed

theorem no_truncation_witness:
  "\<exists>buffer' n. snd (recv sample_input (replicate 65536 0) (Inr (sample_packet @ replicate 65536 7))) =
       (buffer', Inr n) \<and>
     extract_packet_info rfc_pnet (take n buffer') =
       extract_packet_info rfc_pnet (sample_packet @ replicate 65536 7)"
proof -
  obtain ev buffer' n where r: "recv sample_input (replicate 65536 0) (Inr (sample_packet @ replicate 65536 7)) =
      (ev, buffer', Inr n)"
    by (simp only: recv_simps)
  from no_truncation [OF rfc.pnet_layout_axioms length_replicate r] r show ?thesis
    by (metis snd_conv)
qed



text \<open>A configuration without an allow rule relays nothing.\<close>

theorem deny_only_sends_nothing:
  assumes "pnet_layout P" and "relay_filter relay = Filter_new cfg"
    and "\<forall>rule\<in>set (rules cfg). rule_action rule = Deny" and "run P envs relay = Ret (es, r)"
  shows "sends es = []"
proof (rule ccontr)
  assume "sends es \<noteq> []"
  then obtain f b a where "Sendto f b a \<in> set es"
    by (auto simp: sends_def filter_empty_conv is_sendto_iff)
  from pnet_layout.run_Sendto [OF assms(1,4) this] obtain d rule where
    "get_nat_rule (relay_filter relay) (info_of (received d)) = Some rule"
    unfolding relays_Sendto by blast
  then have "rule_action rule = Allow" "rule \<in> set (rules cfg)"
    using find_match_matches by (auto simp: get_nat_rule_Some_iff assms(2) Filter_new_def)
  with assms(3) show False by simp
qed

theorem deny_only_sends_nothing_witness:
  "\<exists>es r. run rfc_pnet [sample_pass] (sample_relay\<lparr>relay_filter :=
       Filter_new \<lparr>rules = [allow_all_rule\<lparr>rule_action := Deny\<rparr>]\<rparr>\<rparr>) = Ret (es, r) \<and> sends es = []"
proof -
  let ?cfg = "\<lparr>rules = [allow_all_rule\<lparr>rule_action := Deny\<rparr>]\<rparr>"
  let ?relay = "sample_relay\<lparr>relay_filter := Filter_new ?cfg\<rparr>"
  obtain es r where r: "run rfc_pnet [sample_pass] ?relay = Ret (es, r)"
    using run_returns sample_fits by blast
  have "relay_filter ?relay = Filter_new ?cfg" "\<forall>rule\<in>set (rules ?cfg). rule_action rule = Deny" by simp_all
  from deny_only_sends_nothing [OF rfc.pnet_layout_axioms this r] r show ?thesis by blast
qed

text \<open>C25: a packet that is allowed, and admitted by the limiter if there is one, reaches every eligible
  output interface exactly once, in the order of the command line, even if some of the sends fail, in
  the pass in which its socket is ready; one that the limiter refuses reaches none. The limiter is
  asked once for the packet, whatever the number of outputs.\<close>

theorem every_eligible_output_served:
  assumes "pnet_layout P" and "bufs_ok st"
    and "ps_fd in_sock \<in> set ready" and "ie_recv env j = Inr d"
    and "is_already_relayed P (received d) = Ret False" and "extract_packet_info P (received d) = Ret (Some info)"
    and "find_match (config (relay_filter (self st))) info = Some rule" and "rule_action rule = Allow"
  shows "\<exists>es st'. handle_input P env ready j in_sock st = Ret (es, st') \<and>
    sends es =
      (if case rate_limiter (self st) of None \<Rightarrow> True | Some rl \<Rightarrow> fst (allow (ie_now env j) rl)
       then map (\<lambda>out. send out (copy_for P (rule_nat rule) (received d) out))
         (filter (\<lambda>out. should_relay_to (pkt_dst_ip info) (ps_ifname in_sock) (ps_ifname out)
                          (ps_broadcast_addrs out)) (output_sockets (self st)))
       else []) \<and>
    self st' = (self st)\<lparr>rate_limiter :=
      map_option (\<lambda>rl. snd (allow (ie_now env j) rl)) (rate_limiter (self st))\<rparr>"
proof -
  have "relayable (received d)" "info = info_of (received d)"
    using assms(6) by (simp_all add: pnet_layout.extract_Some_iff [OF assms(1)])
  then have "passes (relay_filter (self st)) (received d) = Some rule"
    using assms(5,7,8)
    by (simp add: passes_Some_iff get_nat_rule_Some_iff pnet_layout.is_already_relayed_eq [OF assms(1)])
  then have "socket_requests P (output_sockets (self st)) (relay_filter (self st)) env ready j in_sock =
      [(ie_now env j, copies P (output_sockets (self st)) (rule_nat rule) (ps_ifname in_sock) (received d))]"
    using assms(3,4) by (simp add: socket_requests_def)
  with pnet_layout.handle_input_implements [OF assms(1,2), of env ready j in_sock]
  show ?thesis
    by (cases "rate_limiter (self st)")
      (auto simp: implements_def does_def admit_def granted_def copies_def targets_def split_beta
        \<open>info = info_of (received d)\<close>)
qed

theorem every_eligible_output_served_witness:
  "\<exists>es st'. handle_input rfc_pnet sample_pass [3] 0 sample_input (run_init sample_relay) = Ret (es, st') \<and>
     length (sends es) = 1"
proof -
  have st: "self (run_init sample_relay) = sample_relay" by (simp add: run_init_def)
  have m: "is_already_relayed rfc_pnet (received sample_packet) = Ret False"
    unfolding received_sample rfc.is_already_relayed_eq by code_simp
  have x: "extract_packet_info rfc_pnet (received sample_packet) = Ret (Some (info_of sample_packet))"
    by (simp add: received_sample rfc.extract_Some_iff sample_relayable)
  have f: "find_match (config (relay_filter (self (run_init sample_relay)))) (info_of sample_packet) =
      Some allow_all_rule" "rate_limiter (self (run_init sample_relay)) = None"
    "rule_action allow_all_rule = Allow"
    unfolding st by (simp_all add: sample_relay_def Filter_new_def allow_all_def find_match_def)
      (simp add: allow_all_rule_def)
  have i: "ps_fd sample_input \<in> set [3]" "ie_recv sample_pass 0 = Inr sample_packet"
    by (simp_all add: sample_input_def sample_pass_def)
  have t: "filter (\<lambda>out. should_relay_to (pkt_dst_ip (info_of sample_packet)) (ps_ifname sample_input)
      (ps_ifname out) (ps_broadcast_addrs out)) (output_sockets sample_relay) = [sample_output]"
    by code_simp
  from every_eligible_output_served [OF rfc.pnet_layout_axioms bufs_ok_init i m x f(1,3)]
  show ?thesis using f(2) unfolding st t by auto
qed

section \<open>A network of relays\<close>

text \<open>A ring of copies of the sample relay, with one frame waiting at the first, and its first step.\<close>

definition ring :: wiring where
  "ring n f = [(n, 0), (Suc n, 0)]"

definition ring_net :: "(RunState, buf) net" where
  "ring_net = (\<lambda>_. run_init sample_relay, {#(0, 0, sample_packet)#})"

lemma ring_net_step: "\<exists>out c. net_step (relay_node_step rfc_pnet) ring ring_net out c \<and> length out = 1"
proof -
  have s: "input_sockets (self (run_init sample_relay)) = [sample_input]"
    "rate_limiter (self (run_init sample_relay)) = None"
    "output_sockets (self (run_init sample_relay)) = [sample_output]"
    by (simp_all add: run_init_def sample_relay_def)
  have "requests rfc_pnet sample_relay [sample_pass] = [(5, [send sample_output sample_copy])]"
    using sample_requests [of None] by (simp only: sample_relay_same)
  then have rq: "socket_requests rfc_pnet (output_sockets (self (run_init sample_relay)))
      (relay_filter (self (run_init sample_relay))) sample_pass [3] 0 sample_input = [(5, [send sample_output sample_copy])]"
    by (simp add: run_init_def) (simp add: sample_relay_def sample_pass_def)
  obtain es st' where h: "handle_input rfc_pnet sample_pass [3] 0 sample_input (run_init sample_relay) = Ret (es, st')"
    "sends es = [send sample_output sample_copy]"
    using rfc.handle_input_implements [OF bufs_ok_init, of sample_pass "[3]" 0 sample_input sample_relay]
    unfolding rq s(2) implements_def by (auto simp: does_def admit_def granted_def)
  have "ps_fd sample_input = 3" "ie_recv sample_pass 0 = Inr sample_packet"
    by (simp_all add: sample_input_def sample_pass_def)
  with h s have "relay_node_step rfc_pnet (run_init sample_relay) 0 sample_packet (sent es) st'"
    unfolding relay_node_step_def by (auto intro!: exI [of _ sample_pass] exI [of _ es])
  from net_step.receive [of "relay_node_step rfc_pnet" "\<lambda>_. run_init sample_relay", OF this] h
  show ?thesis unfolding ring_net_def by (metis length_sent length_Cons list.size(3) One_nat_def)
qed

text \<open>C11: no wiring of relays can keep traffic alive. In a network of any number of relays, in any
  state, with any configurations, where the frames that they send are delivered to the ports that an
  arbitrary wiring names (loops and echoes included), there is no infinite sequence of deliveries;
  and from every state of every run the network comes to rest, with no frame waiting.\<close>

theorem network_terminates:
  assumes "pnet_layout P" and "\<forall>n. bufs_ok (fst net n)"
  shows "(\<nexists>c. c 0 = net \<and> (\<forall>i. \<exists>out. net_step (relay_node_step P) wire (c i) out (c (Suc i)))) \<and>
    (\<forall>tr net'. net_run (relay_node_step P) wire net tr net' \<longrightarrow>
       (\<exists>tr' nodes'. net_run (relay_node_step P) wire net' tr' (nodes', {#})))"
  using pnet_layout.relay_net_no_infinite_run [OF assms(1)]
    pnet_layout.relay_net_becomes_quiet [OF assms(1,2)] assms(2) by blast

theorem network_terminates_witness:
  "(\<nexists>c. c 0 = ring_net \<and> (\<forall>i. \<exists>out. net_step (relay_node_step rfc_pnet) ring (c i) out (c (Suc i)))) \<and>
   (\<exists>tr nodes'. net_run (relay_node_step rfc_pnet) ring ring_net tr (nodes', {#}))"
proof -
  have "\<forall>n. bufs_ok (fst ring_net n)" by (simp add: ring_net_def)
  from network_terminates [OF rfc.pnet_layout_axioms this, of ring]
    net_run.stop [of "relay_node_step rfc_pnet" ring ring_net] show ?thesis by blast
qed

text \<open>C22: how much traffic a network of relays can produce. Whatever the wiring, all relays together
  send at most one copy for each output interface of the relay that receives a frame, summed over the
  frames that are waiting at the start and do not carry the loop marker.\<close>

theorem network_bounded:
  assumes "pnet_layout P" and "\<forall>n. bufs_ok (nodes n)"
    and "net_run (relay_node_step P) wire (nodes, M) tr net'"
  shows "length tr \<le> (\<Sum>(n, j, d)\<in>#M.
    if marked (received d) then 0 else length (output_sockets (self (nodes n))))"
  by (rule pnet_layout.relay_net_sends_bound [OF assms])

theorem network_bounded_witness:
  "\<exists>tr net'. net_run (relay_node_step rfc_pnet) ring ring_net tr net' \<and> length tr = 1 \<and>
     (\<Sum>(n, j, d)\<in>#{#(0 :: nat, 0 :: nat, sample_packet)#}.
        if marked (received d) then 0 else length (output_sockets sample_relay)) = (1 :: nat)"
proof -
  obtain out c where s: "net_step (relay_node_step rfc_pnet) ring ring_net out c" "length out = 1"
    using ring_net_step by blast
  have r: "net_run (relay_node_step rfc_pnet) ring ring_net out c"
    using net_run.more [OF s(1) net_run.stop] by simp
  have "length (output_sockets sample_relay) = 1" "self (run_init sample_relay) = sample_relay"
    by (simp_all add: sample_relay_def run_init_def)
  with network_bounded [OF rfc.pnet_layout_axioms, of "\<lambda>_. run_init sample_relay" ring
      "{#(0, 0, sample_packet)#}" out c] r s(2)
  show ?thesis
    by (intro exI [of _ out] exI [of _ c]) (simp add: ring_net_def split: if_splits)
qed

end
